theory Spec2Isabelle
  imports Main "HOL-Library.Word" "HOL-Library.Sublist" "HOL-Library.AList"
begin

section \<open>JavaScript strings\<close>

text \<open>
  A JavaScript string is a sequence of 16-bit code units. String literals of the source
  are written \<open>js ''...''\<close>.
\<close>

type_synonym jschar = "16 word"
type_synonym jsstring = "jschar list"

definition js :: "string \<Rightarrow> jsstring" where
  "js s = map of_char s"

text \<open>
  \<^verbatim>\<open>String.prototype.slice(start, end)\<close>: a negative index counts from the end,
  both indices are clamped to the string.
\<close>

definition slice :: "jsstring \<Rightarrow> int \<Rightarrow> int \<Rightarrow> jsstring" where
  "slice s start end =
     (let len = int (length s);
          from = (if start < 0 then max (len + start) 0 else min start len);
          to = (if end < 0 then max (len + end) 0 else min end len)
      in take (nat (max (to - from) 0)) (drop (nat from) s))"

text \<open>
  \<^verbatim>\<open>String.prototype.endsWith(searchString)\<close> with the end position left at the
  length of the string.
\<close>

definition endsWith :: "jsstring \<Rightarrow> jsstring \<Rightarrow> bool" where
  "endsWith s searchString =
     (let len = int (length s);
          start = len - int (length searchString)
      in if start < 0 then False
         else take (length searchString) (drop (nat start) s) = searchString)"

text \<open>\<^verbatim>\<open>String.prototype.includes(searchString)\<close>: the search string occurs at some position.\<close>

definition string_includes :: "jsstring \<Rightarrow> jsstring \<Rightarrow> bool" where
  "string_includes s searchString =
     list_ex (\<lambda>i. take (length searchString) (drop i s) = searchString) [0..<Suc (length s)]"

text \<open>\<^verbatim>\<open>Array.prototype.includes\<close> on an array of strings.\<close>

definition array_includes :: "jsstring list \<Rightarrow> jsstring \<Rightarrow> bool" where
  "array_includes xs x = list_ex (\<lambda>y. y = x) xs"

section \<open>Type compatibility\<close>

definition numericTypes :: "jsstring list" where
  "numericTypes = [js ''number'', js ''int'', js ''float'', js ''double'']"

lemma endsWith_length: "endsWith s x \<Longrightarrow> length x \<le> length s"
  by (auto simp: endsWith_def Let_def split: if_splits)

lemma length_slice_0_neg:
  "0 < k \<Longrightarrow> int k \<le> int (length s) \<Longrightarrow> length (slice s 0 (- int k)) < length s"
  by (auto simp: slice_def Let_def)

text \<open>
  \<^verbatim>\<open>areTypesCompatible(targetType, sourceType)\<close> on two strings. The recursion is on
  the operands with their suffix sliced away, so it ends because the target gets shorter.
\<close>

function areTypesCompatible :: "jsstring \<Rightarrow> jsstring \<Rightarrow> bool" where
  "areTypesCompatible targetType sourceType =
     (if targetType = js ''any'' \<or> sourceType = js ''any'' then True
      else if targetType = sourceType then True
      else if array_includes numericTypes targetType \<and> array_includes numericTypes sourceType
        then True
      else if endsWith targetType (js ''[]'') \<and> endsWith sourceType (js ''[]'')
        then areTypesCompatible (slice targetType 0 (- 2)) (slice sourceType 0 (- 2))
      else if endsWith targetType (js ''*'') \<and> endsWith sourceType (js ''*'')
        then areTypesCompatible (slice targetType 0 (- 1)) (slice sourceType 0 (- 1))
      else False)"
  by pat_completeness auto
termination
proof (relation "measure (\<lambda>(t, s). length t)")
  show "wf (measure (\<lambda>(t, s). length t))" by simp
next
  fix targetType sourceType :: jsstring
  assume "endsWith targetType (js ''[]'') \<and> endsWith sourceType (js ''[]'')"
  then have "length (js ''[]'') \<le> length targetType"
    using endsWith_length by blast
  then have "int 2 \<le> int (length targetType)" by (simp add: js_def)
  from length_slice_0_neg [OF _ this]
  show "((slice targetType 0 (- 2), slice sourceType 0 (- 2)), targetType, sourceType)
          \<in> measure (\<lambda>(t, s). length t)"
    by simp
next
  fix targetType sourceType :: jsstring
  assume "endsWith targetType (js ''*'') \<and> endsWith sourceType (js ''*'')"
  then have "length (js ''*'') \<le> length targetType"
    using endsWith_length by blast
  then have "int 1 \<le> int (length targetType)" by (simp add: js_def)
  from length_slice_0_neg [OF _ this]
  show "((slice targetType 0 (- 1), slice sourceType 0 (- 1)), targetType, sourceType)
          \<in> measure (\<lambda>(t, s). length t)"
    by simp
qed

declare areTypesCompatible.simps [simp del]

subsection \<open>The compatibility rules as the specification words them\<close>

text \<open>
  The six rules of the specification, applied in order, the first match deciding:
  the wildcard, textual identity, the closed numeric set, the array suffix, the pointer
  suffix, and otherwise incompatible. Ending with a suffix is \<^const>\<open>suffix\<close>; stripping
  it removes that many characters from the end.
\<close>

definition wildcard :: jsstring where
  "wildcard = js ''any''"

definition numeric_set :: "jsstring set" where
  "numeric_set = {js ''number'', js ''int'', js ''float'', js ''double''}"

definition array_suffix :: jsstring where
  "array_suffix = js ''[]''"

definition pointer_suffix :: jsstring where
  "pointer_suffix = js ''*''"

definition strip_suffix :: "jsstring \<Rightarrow> jsstring \<Rightarrow> jsstring" where
  "strip_suffix suf s = rev (drop (length suf) (rev s))"

lemma strip_suffix_shorter:
  "suffix suf s \<Longrightarrow> suf \<noteq> [] \<Longrightarrow> length (strip_suffix suf s) < length s"
  using suffix_length_le [of suf s] by (cases suf) (auto simp: strip_suffix_def)

function compatible_spec :: "jsstring \<Rightarrow> jsstring \<Rightarrow> bool" where
  "compatible_spec t s =
     (if t = wildcard \<or> s = wildcard then True
      else if t = s then True
      else if t \<in> numeric_set \<and> s \<in> numeric_set then True
      else if suffix array_suffix t \<and> suffix array_suffix s
        then compatible_spec (strip_suffix array_suffix t) (strip_suffix array_suffix s)
      else if suffix pointer_suffix t \<and> suffix pointer_suffix s
        then compatible_spec (strip_suffix pointer_suffix t) (strip_suffix pointer_suffix s)
      else False)"
  by pat_completeness auto
termination
  by (relation "measure (\<lambda>(t, s). length t)")
    (auto intro!: strip_suffix_shorter simp: array_suffix_def pointer_suffix_def js_def)

declare compatible_spec.simps [simp del]

section \<open>Numbers\<close>

text \<open>
  A JavaScript number is an IEEE 754 double. The registry never computes with numbers; it
  only holds those of an imported document or of a caller's metadata, tests them for
  truth and writes them out. A number is kept here as a decimal literal and stands for
  the double closest to the literal's value, as \<^verbatim>\<open>JSON.parse\<close> reads it. This section
  gives the double a literal stands for and the text \<^verbatim>\<open>Number.prototype.toString\<close>
  writes for it.
\<close>

definition ch :: "char \<Rightarrow> jschar" where
  "ch c = of_char c"

definition isDigit :: "jschar \<Rightarrow> bool" where
  "isDigit c = (0x30 \<le> c \<and> c \<le> 0x39)"

definition digitsValue :: "jsstring \<Rightarrow> int" where
  "digitsValue ds = foldl (\<lambda>n c. 10 * n + (uint c - 0x30)) 0 ds"

text \<open>The decimal digits of a positive integer, and their number.\<close>

fun digits :: "int \<Rightarrow> jsstring" where
  "digits n = (if n < 10 then [0x30 + of_int n] else digits (n div 10) @ [0x30 + of_int (n mod 10)])"

declare digits.simps [simp del]

fun decimalLength :: "int \<Rightarrow> int" where
  "decimalLength n = (if n \<le> 0 then 0 else 1 + decimalLength (n div 10))"

declare decimalLength.simps [simp del]

fun bitLength :: "int \<Rightarrow> int" where
  "bitLength n = (if n \<le> 0 then 0 else 1 + bitLength (n div 2))"

declare bitLength.simps [simp del]

text \<open>
  The parts of a literal: whether it has a minus sign, the digits of its integer part
  and fraction read as one integer \<open>m\<close>, and the exponent \<open>s\<close> that makes its value
  \<open>m \<times> 10\<^sup>s\<close>.
\<close>

definition exponentPart :: "jsstring \<Rightarrow> int" where
  "exponentPart s =
     (case s of
        [] \<Rightarrow> 0
      | c # t \<Rightarrow>
          if c = ch CHR ''e'' \<or> c = ch CHR ''E'' then
            (case t of
               [] \<Rightarrow> 0
             | d # u \<Rightarrow>
                 if d = ch CHR ''-'' then - digitsValue (takeWhile isDigit u)
                 else if d = ch CHR ''+'' then digitsValue (takeWhile isDigit u)
                 else digitsValue (takeWhile isDigit t))
          else 0)"

definition decimalOf :: "jsstring \<Rightarrow> bool \<times> int \<times> int" where
  "decimalOf l =
     (let negative = (l \<noteq> [] \<and> hd l = ch CHR ''-'');
          u = (if negative then tl l else l);
          whole = takeWhile isDigit u;
          r = dropWhile isDigit u;
          point = (r \<noteq> [] \<and> hd r = ch CHR ''.'');
          fraction = (if point then takeWhile isDigit (tl r) else []);
          r' = (if point then dropWhile isDigit (tl r) else r)
      in (negative, digitsValue (whole @ fraction), exponentPart r' - int (length fraction)))"

text \<open>
  Positive rationals are pairs \<open>(p, q)\<close> of positive integers. \<open>atLeastPower b p q k\<close> is
  \<open>b\<^sup>k \<le> p / q\<close>.
\<close>

definition atLeastPower :: "int \<Rightarrow> int \<Rightarrow> int \<Rightarrow> int \<Rightarrow> bool" where
  "atLeastPower b p q k = (if 0 \<le> k then q * b ^ nat k \<le> p else q \<le> p * b ^ nat (- k))"

text \<open>\<open>p / q\<close> rounded to the nearest integer, to the even one of two that are equally near.\<close>

definition roundHalfEven :: "int \<Rightarrow> int \<Rightarrow> int" where
  "roundHalfEven p q =
     (let f = p div q; r = p mod q
      in if 2 * r < q then f
         else if q < 2 * r then f + 1
         else if even f then f else f + 1)"

text \<open>
  The double nearest to \<open>p / q\<close>, as a significand \<open>m\<close> and an exponent \<open>e\<close>: the double is
  \<open>m \<times> 2\<^sup>e\<close>, with \<open>m < 2\<^sup>5\<^sup>3\<close>, and \<open>2\<^sup>5\<^sup>2 \<le> m\<close> unless \<open>e\<close> is the least exponent
  \<open>-1074\<close>. The significand is \<open>0\<close> when \<open>p / q\<close> rounds to zero, and the exponent is above
  \<open>971\<close> when it rounds to infinity.
\<close>

definition roundDouble :: "int \<Rightarrow> int \<Rightarrow> int \<times> int" where
  "roundDouble p q =
     (let k = bitLength p - bitLength q;
          e = max (if atLeastPower 2 p q k then k else k - 1) (- 1022) - 52;
          m = (if 0 \<le> e then roundHalfEven p (q * 2 ^ nat e)
               else roundHalfEven (p * 2 ^ nat (- e)) q)
      in if m = 2 ^ 53 then (2 ^ 52, e + 1) else (m, e))"

text \<open>\<open>m \<times> 10\<^sup>s\<close> as a double, for \<open>0 < m\<close>.\<close>

definition decimalDouble :: "int \<Rightarrow> int \<Rightarrow> int \<times> int" where
  "decimalDouble m s =
     (if 0 \<le> s then roundDouble (m * 10 ^ nat s) 1 else roundDouble m (10 ^ nat (- s)))"

text \<open>
  The double a literal stands for: its sign, significand and exponent. With \<open>j\<close> the
  number of digits of \<open>m\<close>, the value \<open>m \<times> 10\<^sup>s\<close> is at least \<open>10\<^sup>j\<^sup>+\<^sup>s\<^sup>-\<^sup>1\<close> and less than
  \<open>10\<^sup>j\<^sup>+\<^sup>s\<close>: a value of \<open>10\<^sup>3\<^sup>0\<^sup>9\<close> or more is infinite and a value less than \<open>10\<^sup>-\<^sup>3\<^sup>2\<^sup>4\<close> is
  zero, whatever the digits.
\<close>

definition toNumber :: "jsstring \<Rightarrow> bool \<times> int \<times> int" where
  "toNumber l =
     (case decimalOf l of
        (negative, m, s) \<Rightarrow>
          if m = 0 then (negative, 0, 0)
          else if 309 < decimalLength m + s then (negative, 2 ^ 52, 972)
          else if decimalLength m + s < - 323 then (negative, 0, 0)
          else (negative, decimalDouble m s))"

definition isZero :: "jsstring \<Rightarrow> bool" where
  "isZero l = (case toNumber l of (negative, m, e) \<Rightarrow> m = 0)"

definition isFiniteNumber :: "jsstring \<Rightarrow> bool" where
  "isFiniteNumber l = (case toNumber l of (negative, m, e) \<Rightarrow> e \<le> 971)"

text \<open>
  \<^verbatim>\<open>Number.prototype.toString\<close> writes the shortest digits that read back as the same
  double: integers \<open>n\<close>, \<open>k\<close> and \<open>s\<close> with \<open>k\<close> as small as possible such that \<open>s\<close> has \<open>k\<close>
  digits and \<open>s \<times> 10\<^sup>n\<^sup>-\<^sup>k\<close> rounds to the double; of several such \<open>s\<close> the one that is
  closest to the double, and the even one of two that are equally close.

  \<open>decimalExponent p q\<close> is the \<open>n\<close> with \<open>10\<^sup>n\<^sup>-\<^sup>1 \<le> p / q < 10\<^sup>n\<close>. \<open>digitsAt d n k\<close> looks
  for \<open>s\<close> among the two multiples of \<open>10\<^sup>n\<^sup>-\<^sup>k\<close> next to the double \<open>d\<close>: when one with
  \<open>k\<close> digits rounds to \<open>d\<close>, one of these two does.
\<close>

definition decimalExponent :: "int \<Rightarrow> int \<Rightarrow> int" where
  "decimalExponent p q =
     (let k = decimalLength p - decimalLength q
      in if atLeastPower 10 p q k then k + 1 else k)"

definition digitsAt :: "int \<times> int \<Rightarrow> int \<Rightarrow> int \<Rightarrow> int option" where
  "digitsAt d n k =
     (let p = (if 0 \<le> snd d then fst d * 2 ^ nat (snd d) else fst d);
          q = (if 0 \<le> snd d then 1 else 2 ^ nat (- snd d));
          a = (if n \<le> k then p * 10 ^ nat (k - n) else p);
          b = (if n \<le> k then q else q * 10 ^ nat (n - k));
          s = a div b;
          r = a mod b;
          low = (decimalDouble s (n - k) = d);
          high = (decimalDouble (s + 1) (n - k) = d)
      in if low \<and> high then Some (if 2 * r < b \<or> (2 * r = b \<and> even s) then s else s + 1)
         else if low then Some s
         else if high then Some (s + 1)
         else None)"

text \<open>
  The first of the lengths \<open>ks\<close>, taken in their order, at which \<^const>\<open>digitsAt\<close> finds a
  significand, with that significand.
\<close>

fun firstDigits :: "int \<times> int \<Rightarrow> int \<Rightarrow> int list \<Rightarrow> (int \<times> int) option" where
  "firstDigits d n [] = None"
| "firstDigits d n (k # ks) =
     (if digitsAt d n k = None then firstDigits d n ks else Some (the (digitsAt d n k), k))"

text \<open>
  The digits of a finite double \<open>d\<close> other than zero, without zeros at their end, and
  the exponent \<open>n\<close>: \<open>d\<close> is \<open>0.digits \<times> 10\<^sup>n\<close>. Seventeen digits tell any two doubles apart,
  so that the search ends by \<open>k = 17\<close>.
\<close>

definition shortestDigits :: "int \<times> int \<Rightarrow> jsstring \<times> int" where
  "shortestDigits d =
     (let n = (if 0 \<le> snd d then decimalExponent (fst d * 2 ^ nat (snd d)) 1
               else decimalExponent (fst d) (2 ^ nat (- snd d)))
      in case firstDigits d n [1, 2, 3, 4, 5, 6, 7, 8, 9, 10, 11, 12, 13, 14, 15, 16, 17] of
           None \<Rightarrow> ([], n)
         | Some (s, k) \<Rightarrow>
             (rev (dropWhile (\<lambda>c. c = ch CHR ''0'') (rev (digits s))),
              n + (int (length (digits s)) - k)))"

text \<open>The text for digits \<open>ds\<close> and exponent \<open>n\<close>, in the four forms of the standard.\<close>

definition formatNumber :: "jsstring \<Rightarrow> int \<Rightarrow> jsstring" where
  "formatNumber ds n =
     (let k = int (length ds)
      in if k \<le> n \<and> n \<le> 21 then ds @ replicate (nat (n - k)) (ch CHR ''0'')
         else if 0 < n \<and> n \<le> 21 then take (nat n) ds @ ch CHR ''.'' # drop (nat n) ds
         else if - 6 < n \<and> n \<le> 0 then
           ch CHR ''0'' # ch CHR ''.'' # replicate (nat (- n)) (ch CHR ''0'') @ ds
         else
           (let exponent = (if n - 1 < 0 then ch CHR ''-'' # digits (1 - n)
                            else ch CHR ''+'' # digits (n - 1))
            in if k = 1 then ds @ ch CHR ''e'' # exponent
               else hd ds # ch CHR ''.'' # tl ds @ ch CHR ''e'' # exponent))"

text \<open>\<^verbatim>\<open>Number.prototype.toString\<close> of the number a literal stands for.\<close>

definition numberToString :: "jsstring \<Rightarrow> jsstring" where
  "numberToString l =
     (case toNumber l of
        (negative, m, e) \<Rightarrow>
          if m = 0 then [ch CHR ''0'']
          else if 971 < e then (if negative then js ''-Infinity'' else js ''Infinity'')
          else (if negative then [ch CHR ''-''] else [])
                 @ (case shortestDigits (m, e) of (ds, n) \<Rightarrow> formatNumber ds n))"

section \<open>JavaScript values\<close>

text \<open>
  The values the registry stores and serializes. An object is the list of its own
  enumerable properties in property order, an array the list of its elements. A number is
  kept as a decimal literal, as described above. \<open>BackRef n\<close> is a reference back to an
  enclosing object or array, \<open>n\<close> levels above the one that holds the reference (which
  is level 0): this is how a cycle of the object graph appears when the graph is walked
  from a root, as \<^verbatim>\<open>JSON.stringify\<close> does.
\<close>

datatype jsval =
    Undefined
  | Null
  | Bool bool
  | Num jsstring
  | Str jsstring
  | Arr "jsval list"
  | Obj "(jsstring \<times> jsval) list"
  | BackRef nat

datatype error = TypeError | SyntaxError

text \<open>Truthiness (\<^verbatim>\<open>ToBoolean\<close>): of numbers, zero is false.\<close>

fun truthy :: "jsval \<Rightarrow> bool" where
  "truthy Undefined = False"
| "truthy Null = False"
| "truthy (Bool b) = b"
| "truthy (Num l) = (\<not> isZero l)"
| "truthy (Str s) = (s \<noteq> [])"
| "truthy (Arr xs) = True"
| "truthy (Obj ps) = True"
| "truthy (BackRef n) = True"

text \<open>
  Reading a property \<open>v.k\<close> of a value that is neither \<^verbatim>\<open>null\<close> nor \<^verbatim>\<open>undefined\<close>,
  for the property names the registry reads (\<open>type\<close>, \<open>message\<close>, \<open>variableTypes\<close>,
  \<open>blockTypes\<close>, \<open>typeErrors\<close>): none of them is inherited from a prototype, so only an
  own property of an object answers. (The registry never reads through a back reference;
  one answers \<^verbatim>\<open>undefined\<close> here.)
\<close>

fun getProp :: "jsval \<Rightarrow> jsstring \<Rightarrow> jsval" where
  "getProp (Obj ps) k = (case map_of ps k of Some v \<Rightarrow> v | None \<Rightarrow> Undefined)"
| "getProp v k = Undefined"

text \<open>
  The string a template literal makes of a value (\<^verbatim>\<open>ToString\<close>). An array is the
  strings of its elements joined by commas, \<^verbatim>\<open>null\<close> and \<^verbatim>\<open>undefined\<close> among them
  giving the empty string (\<^verbatim>\<open>Array.prototype.join\<close>). An object is \<open>[object Object]\<close>
  (\<^verbatim>\<open>Object.prototype.toString\<close>), unless it has a property \<open>toString\<close> of its own:
  the properties here hold data, none of them a function, so that neither this
  \<open>toString\<close> nor the inherited \<^verbatim>\<open>valueOf\<close> gives a primitive value, which is a
  \<^verbatim>\<open>TypeError\<close>. (A back reference is taken to lead to an object without a \<open>toString\<close>
  of its own.)
\<close>

fun toString :: "jsval \<Rightarrow> error + jsstring"
  and joinElements :: "jsval list \<Rightarrow> error + jsstring"
where
  "toString Undefined = Inr (js ''undefined'')"
| "toString Null = Inr (js ''null'')"
| "toString (Bool b) = Inr (if b then js ''true'' else js ''false'')"
| "toString (Num l) = Inr (numberToString l)"
| "toString (Str s) = Inr s"
| "toString (Arr xs) = joinElements xs"
| "toString (Obj ps) =
     (if js ''toString'' \<in> fst ` set ps then Inl TypeError else Inr (js ''[object Object]''))"
| "toString (BackRef n) = Inr (js ''[object Object]'')"
| "joinElements [] = Inr []"
| "joinElements (x # xs) =
     (case (if x = Undefined \<or> x = Null then Inr [] else toString x) of
        Inl e \<Rightarrow> Inl e
      | Inr first \<Rightarrow>
          if xs = [] then Inr first
          else (case joinElements xs of
                  Inl e \<Rightarrow> Inl e
                | Inr others \<Rightarrow> Inr (first @ ch CHR '','' # others)))"

section \<open>Blocks of the workspace\<close>

text \<open>
  What the registry uses of a block: its \<open>type\<close> tag, the value of a named field
  (\<^verbatim>\<open>block.getFieldValue(name)\<close>), the result of \<^verbatim>\<open>block.getVariableType()\<close>, and the
  block object itself, which the registry stores in its diagnostics. The four kinds of
  typed blocks carry the fields the scan reads from them (\<open>NAME\<close> or \<open>VAR\<close>, and
  \<open>TYPE\<close>), and the values of these fields and of the variable type are strings.
\<close>

record block =
  blockType :: jsstring
  getFieldValue :: "jsstring \<Rightarrow> jsstring"
  blockVariableType :: jsstring
  self :: jsval

section \<open>The type manager\<close>

text \<open>
  The two maps are JavaScript \<^verbatim>\<open>Map\<close>s keyed by strings, kept in insertion order;
  \<^verbatim>\<open>Map.prototype.set\<close> is \<^const>\<open>AList.update\<close> (replace in place, or append).
  \<open>typeErrors\<close> is whatever value the field holds: an array after the constructor and
  after a scan, any parsed value after an import.
\<close>

record registry =
  variableTypes :: "(jsstring \<times> jsval) list"
  blockTypes :: "(jsstring \<times> jsval) list"
  typeErrors :: jsval

definition TypeManager :: registry where
  "TypeManager = \<lparr>variableTypes = [], blockTypes = [], typeErrors = Arr []\<rparr>"

definition registerVariable :: "registry \<Rightarrow> jsstring \<Rightarrow> jsstring \<Rightarrow> jsstring \<Rightarrow> registry" where
  "registerVariable st variableName type scope =
     st\<lparr>variableTypes :=
          AList.update variableName
            (Obj [(js ''type'', Str type), (js ''scope'', Str scope), (js ''declared'', Bool True)])
            (variableTypes st)\<rparr>"

definition getVariableType :: "registry \<Rightarrow> jsstring \<Rightarrow> jsval" where
  "getVariableType st variableName =
     (case map_of (variableTypes st) variableName of
        None \<Rightarrow> Null
      | Some varInfo \<Rightarrow> if truthy varInfo then getProp varInfo (js ''type'') else Null)"

definition isVariableDeclared :: "registry \<Rightarrow> jsstring \<Rightarrow> bool" where
  "isVariableDeclared st variableName = (map_of (variableTypes st) variableName \<noteq> None)"

definition registerBlockType :: "registry \<Rightarrow> jsstring \<Rightarrow> jsval \<Rightarrow> registry" where
  "registerBlockType st blockId typeInfo =
     st\<lparr>blockTypes := AList.update blockId typeInfo (blockTypes st)\<rparr>"

definition getBlockType :: "registry \<Rightarrow> jsstring \<Rightarrow> jsval" where
  "getBlockType st blockId =
     (case map_of (blockTypes st) blockId of
        None \<Rightarrow> Null
      | Some v \<Rightarrow> if truthy v then v else Null)"

text \<open>\<^verbatim>\<open>this.typeErrors.push(e)\<close>: a \<^verbatim>\<open>TypeError\<close> when the field does not hold an array.\<close>

definition pushTypeError :: "registry \<Rightarrow> jsval \<Rightarrow> error + registry" where
  "pushTypeError st e =
     (case typeErrors st of
        Arr es \<Rightarrow> Inr (st\<lparr>typeErrors := Arr (es @ [e])\<rparr>)
      | _ \<Rightarrow> Inl TypeError)"

definition typeError :: "block \<Rightarrow> jsstring \<Rightarrow> jsval" where
  "typeError b message =
     Obj [(js ''block'', self b), (js ''message'', Str message), (js ''severity'', Str (js ''error''))]"

text \<open>
  \<^verbatim>\<open>areTypesCompatible(targetType, sourceType)\<close> where one of the two arguments is the
  type string of a block and the other the registered type, which is a string after a
  declaration but may be any value after an import. On two strings it is
  \<^const>\<open>areTypesCompatible\<close>. A value that is not a string is no \<open>any\<close>, is not identical
  to the string and is none of the numeric types, so that the array rule is reached, and
  the pointer rule after it: each calls \<^verbatim>\<open>endsWith\<close> on the target first and on the
  source only when the target ends with the suffix, and the call is a \<^verbatim>\<open>TypeError\<close> on a
  value that is not a string (it has no method \<^verbatim>\<open>endsWith\<close>).
\<close>

definition areTypesCompatibleWithSource :: "jsstring \<Rightarrow> jsval \<Rightarrow> error + bool" where
  "areTypesCompatibleWithSource targetType sourceType =
     (case sourceType of
        Str s \<Rightarrow> Inr (areTypesCompatible targetType s)
      | _ \<Rightarrow>
          if targetType = js ''any'' then Inr True
          else if endsWith targetType (js ''[]'') then Inl TypeError
          else if endsWith targetType (js ''*'') then Inl TypeError
          else Inr False)"

definition areTypesCompatibleWithTarget :: "jsval \<Rightarrow> jsstring \<Rightarrow> error + bool" where
  "areTypesCompatibleWithTarget targetType sourceType =
     (case targetType of
        Str t \<Rightarrow> Inr (areTypesCompatible t sourceType)
      | _ \<Rightarrow> if sourceType = js ''any'' then Inr True else Inl TypeError)"

text \<open>
  The three checks of \<^verbatim>\<open>checkBlockTypeErrors\<close>, in the order of the source. An error
  thrown on the way (by the comparison, by the template literal of the message or by
  \<^verbatim>\<open>push\<close>) ends the check, and the scan with it: nothing in the class catches it.
\<close>

definition checkGetter :: "registry \<Rightarrow> block \<Rightarrow> error + registry" where
  "checkGetter st b =
     (if blockType b = js ''typed_lexical_variable_get'' then
        (let varName = getFieldValue b (js ''VAR'');
             expectedType = blockVariableType b;
             actualType = getVariableType st varName
         in if truthy actualType then
              (case areTypesCompatibleWithSource expectedType actualType of
                 Inl e \<Rightarrow> Inl e
               | Inr True \<Rightarrow> Inr st
               | Inr False \<Rightarrow>
                   (case toString actualType of
                      Inl e \<Rightarrow> Inl e
                    | Inr actual \<Rightarrow>
                        pushTypeError st (typeError b
                          (js ''Type mismatch: expected '' @ expectedType @ js '', got '' @ actual
                             @ js '' for variable '' @ varName))))
            else Inr st)
      else Inr st)"

definition checkSetter :: "registry \<Rightarrow> block \<Rightarrow> error + registry" where
  "checkSetter st b =
     (if blockType b = js ''typed_lexical_variable_set'' then
        (let varName = getFieldValue b (js ''VAR'');
             expectedType = blockVariableType b;
             actualType = getVariableType st varName
         in if truthy actualType then
              (case areTypesCompatibleWithTarget actualType expectedType of
                 Inl e \<Rightarrow> Inl e
               | Inr True \<Rightarrow> Inr st
               | Inr False \<Rightarrow>
                   (case toString actualType of
                      Inl e \<Rightarrow> Inl e
                    | Inr actual \<Rightarrow>
                        pushTypeError st (typeError b
                          (js ''Type mismatch: cannot assign '' @ expectedType @ js '' to variable ''
                             @ varName @ js '' of type '' @ actual))))
            else Inr st)
      else Inr st)"

definition checkDeclaration :: "registry \<Rightarrow> block \<Rightarrow> error + registry" where
  "checkDeclaration st b =
     (if blockType b = js ''typed_global_declaration''
          \<or> blockType b = js ''typed_local_declaration_statement'' then
        (let varName = getFieldValue b
               (if blockType b = js ''typed_global_declaration'' then js ''NAME'' else js ''VAR'');
             declaredType = getFieldValue b (js ''TYPE'')
         in if isVariableDeclared st varName
            then pushTypeError st (typeError b
                   (js ''Variable '' @ varName @ js '' is already declared''))
            else Inr (registerVariable st varName declaredType
                   (if blockType b = js ''typed_global_declaration'' then js ''global''
                    else js ''local'')))
      else Inr st)"

definition checkBlockTypeErrors :: "registry \<Rightarrow> block \<Rightarrow> error + registry" where
  "checkBlockTypeErrors st b =
     (case checkGetter st b of
        Inl e \<Rightarrow> Inl e
      | Inr st1 \<Rightarrow>
          (case checkSetter st1 b of
             Inl e \<Rightarrow> Inl e
           | Inr st2 \<Rightarrow> checkDeclaration st2 b))"

text \<open>The loop of \<^verbatim>\<open>checkTypeErrors\<close> over the blocks of the workspace.\<close>

fun checkBlocks :: "registry \<Rightarrow> block list \<Rightarrow> error + registry" where
  "checkBlocks st [] = Inr st"
| "checkBlocks st (b # bs) =
     (case checkBlockTypeErrors st b of
        Inl e \<Rightarrow> Inl e
      | Inr st' \<Rightarrow> checkBlocks st' bs)"

text \<open>
  \<^verbatim>\<open>checkTypeErrors()\<close>, with the blocks \<^verbatim>\<open>workspace.getAllBlocks(false)\<close> returns as
  an argument. The diagnostics it returns are the \<open>typeErrors\<close> of the resulting state.
\<close>

definition checkTypeErrors :: "registry \<Rightarrow> block list \<Rightarrow> error + registry" where
  "checkTypeErrors st blocks = checkBlocks (st\<lparr>typeErrors := Arr []\<rparr>) blocks"

definition getTypeErrors :: "registry \<Rightarrow> jsval" where
  "getTypeErrors st = typeErrors st"

definition clearTypeErrors :: "registry \<Rightarrow> registry" where
  "clearTypeErrors st = st\<lparr>typeErrors := Arr []\<rparr>"

text \<open>
  \<^verbatim>\<open>getVariableTypeSummary()\<close>: a fresh object with one property per entry of the map.
  The assignment \<^verbatim>\<open>summary[varName] = typeInfo\<close> makes no property for the name
  \<open>__proto__\<close>: that name is an accessor inherited from \<^verbatim>\<open>Object.prototype\<close>, whose
  setter changes the prototype of \<open>summary\<close> (or nothing) and none of its own properties.
\<close>

definition getVariableTypeSummary :: "registry \<Rightarrow> jsval" where
  "getVariableTypeSummary st =
     Obj (fold (\<lambda>(varName, typeInfo) summary.
                  if varName = js ''__proto__'' then summary
                  else AList.update varName typeInfo summary)
            (variableTypes st) [])"

definition reset :: "registry \<Rightarrow> registry" where
  "reset st = st\<lparr>variableTypes := [], blockTypes := [], typeErrors := Arr []\<rparr>"

text \<open>
  The diagnostics of a list whose message contains a given text, as the tests select them
  (\<^verbatim>\<open>errors.filter(error => error.message.includes(text))\<close>).
\<close>

definition mentions :: "jsstring \<Rightarrow> jsval \<Rightarrow> bool" where
  "mentions text e = (case getProp e (js ''message'') of
                        Str m \<Rightarrow> string_includes m text
                      | _ \<Rightarrow> False)"

definition errorsMentioning :: "jsstring \<Rightarrow> jsval \<Rightarrow> jsval list" where
  "errorsMentioning text errors = (case errors of Arr es \<Rightarrow> filter (mentions text) es | _ \<Rightarrow> [])"

text \<open>Which blocks declare a name, and which read or write it, as the scan decides it.\<close>

definition isDeclaration :: "block \<Rightarrow> bool" where
  "isDeclaration b = (blockType b = js ''typed_global_declaration''
                       \<or> blockType b = js ''typed_local_declaration_statement'')"

definition declaredName :: "block \<Rightarrow> jsstring" where
  "declaredName b = getFieldValue b
     (if blockType b = js ''typed_global_declaration'' then js ''NAME'' else js ''VAR'')"

definition declares :: "block \<Rightarrow> jsstring \<Rightarrow> bool" where
  "declares b n = (isDeclaration b \<and> declaredName b = n)"

definition references :: "block \<Rightarrow> jsstring \<Rightarrow> bool" where
  "references b n = ((blockType b = js ''typed_lexical_variable_get''
                        \<or> blockType b = js ''typed_lexical_variable_set'')
                     \<and> getFieldValue b (js ''VAR'') = n)"

section \<open>Blocks of the tests\<close>

text \<open>
  A typed block as an object, with the properties the repository's own code shows: the
  \<open>type\<close> the scan reads, and \<open>fieldVar_\<close>, which the block's \<open>init\<close> creates and attaches
  with \<^verbatim>\<open>this.fieldVar_.setBlock(this)\<close>, so that the field's \<open>sourceBlock_\<close> is the
  block it sits on, one level above the field. A block of the editor has more properties
  (its workspace, inputs and connections); they lead back to the block as well.
\<close>

definition blockObject :: "jsstring \<Rightarrow> jsstring \<Rightarrow> jsval" where
  "blockObject type varType =
     Obj [(js ''type'', Str type),
          (js ''fieldVar_'',
             Obj [(js ''sourceBlock_'', BackRef 1),
                  (js ''type'', Str varType),
                  (js ''language'', Str (js ''typescript''))])]"

text \<open>
  A local and a global declaration block as the scan reads them: the field \<open>VAR\<close> (of a
  global declaration \<open>NAME\<close>) holds the name and the field \<open>TYPE\<close> the declared type. The
  tests make them with \<^verbatim>\<open>workspace.newBlock\<close> and \<^verbatim>\<open>setFieldValue\<close>; the type is then
  one that the type dropdown of the block offers, such as \<open>number\<close> or \<open>string\<close>. The
  variable field of the block keeps its default type \<open>any\<close>.
\<close>

definition localDeclaration :: "jsstring \<Rightarrow> jsstring \<Rightarrow> block" where
  "localDeclaration name type =
     \<lparr>blockType = js ''typed_local_declaration_statement'',
      getFieldValue = (\<lambda>f. if f = js ''VAR'' then name else if f = js ''TYPE'' then type else []),
      blockVariableType = type,
      self = blockObject (js ''typed_local_declaration_statement'') (js ''any'')\<rparr>"

definition globalDeclaration :: "jsstring \<Rightarrow> jsstring \<Rightarrow> block" where
  "globalDeclaration name type =
     \<lparr>blockType = js ''typed_global_declaration'',
      getFieldValue = (\<lambda>f. if f = js ''NAME'' then name else if f = js ''TYPE'' then type else []),
      blockVariableType = type,
      self = blockObject (js ''typed_global_declaration'') (js ''any'')\<rparr>"

text \<open>
  \<^verbatim>\<open>workspace.newBlock('typed_lexical_variable_set')\<close> and
  \<^verbatim>\<open>workspace.newBlock('typed_lexical_variable_get')\<close> with the field \<open>VAR\<close> set and the
  type of the variable field set by \<^verbatim>\<open>fieldVar_.setType(type)\<close>.
\<close>

definition variableSet :: "jsstring \<Rightarrow> jsstring \<Rightarrow> block" where
  "variableSet name type =
     \<lparr>blockType = js ''typed_lexical_variable_set'',
      getFieldValue = (\<lambda>f. if f = js ''VAR'' then name else []),
      blockVariableType = type,
      self = blockObject (js ''typed_lexical_variable_set'') type\<rparr>"

definition variableGet :: "jsstring \<Rightarrow> jsstring \<Rightarrow> block" where
  "variableGet name type =
     \<lparr>blockType = js ''typed_lexical_variable_get'',
      getFieldValue = (\<lambda>f. if f = js ''VAR'' then name else []),
      blockVariableType = type,
      self = blockObject (js ''typed_lexical_variable_get'') type\<rparr>"

text \<open>
  A registry as the tests build it, with two registered variables, and the information
  of a block stored under a block identifier: its name, its type and the line it is on.
\<close>

definition sampleRegistry :: registry where
  "sampleRegistry =
     registerBlockType
       (registerVariable
          (registerVariable TypeManager (js ''counter'') (js ''number'') (js ''global''))
          (js ''name'') (js ''string'') (js ''local''))
       (js ''b1'')
       (Obj [(js ''name'', Str (js ''counter'')), (js ''type'', Str (js ''number'')),
             (js ''line'', Num (js ''42''))])"

section \<open>JSON text\<close>

subsection \<open>Characters\<close>

definition quotationMark :: jschar where "quotationMark = 0x22"
definition reverseSolidus :: jschar where "reverseSolidus = 0x5C"
definition lineFeed :: jschar where "lineFeed = 0x0A"

text \<open>Hexadecimal digits: written in lower case, read in either case.\<close>

definition hexDigit :: "nat \<Rightarrow> jschar" where
  "hexDigit n = (if n < 10 then 0x30 + of_nat n else 0x61 + of_nat (n - 10))"

definition hexValue :: "jschar \<Rightarrow> nat option" where
  "hexValue c =
     (if 0x30 \<le> c \<and> c \<le> 0x39 then Some (unat c - 0x30)
      else if 0x61 \<le> c \<and> c \<le> 0x66 then Some (unat c - 0x61 + 10)
      else if 0x41 \<le> c \<and> c \<le> 0x46 then Some (unat c - 0x41 + 10)
      else None)"

definition isLeadingSurrogate :: "jschar \<Rightarrow> bool" where
  "isLeadingSurrogate c = (0xD800 \<le> c \<and> c \<le> 0xDBFF)"

definition isTrailingSurrogate :: "jschar \<Rightarrow> bool" where
  "isTrailingSurrogate c = (0xDC00 \<le> c \<and> c \<le> 0xDFFF)"

subsection \<open>\<^verbatim>\<open>JSON.stringify(value, null, 2)\<close>\<close>

text \<open>\<^verbatim>\<open>UnicodeEscape\<close>: a backslash, \<open>u\<close> and four hexadecimal digits.\<close>

definition unicodeEscape :: "jschar \<Rightarrow> jsstring" where
  "unicodeEscape c =
     (let n = unat c
      in [reverseSolidus, ch CHR ''u'', hexDigit (n div 4096), hexDigit (n div 256 mod 16),
          hexDigit (n div 16 mod 16), hexDigit (n mod 16)])"

text \<open>
  One code unit that is not a surrogate: the two-character escapes of the table, a
  \<^verbatim>\<open>\u\<close> escape for the other control characters, the character itself otherwise.
\<close>

definition quoteUnit :: "jschar \<Rightarrow> jsstring" where
  "quoteUnit c =
     (if c = 0x08 then [reverseSolidus, ch CHR ''b'']
      else if c = 0x09 then [reverseSolidus, ch CHR ''t'']
      else if c = 0x0A then [reverseSolidus, ch CHR ''n'']
      else if c = 0x0C then [reverseSolidus, ch CHR ''f'']
      else if c = 0x0D then [reverseSolidus, ch CHR ''r'']
      else if c = quotationMark then [reverseSolidus, quotationMark]
      else if c = reverseSolidus then [reverseSolidus, reverseSolidus]
      else if c < 0x20 then unicodeEscape c
      else [c])"

text \<open>
  The characters of \<^verbatim>\<open>QuoteJSONString\<close>, code point by code point: a surrogate pair is
  copied, a surrogate without its partner is escaped.
\<close>

fun quoteUnits :: "jsstring \<Rightarrow> jsstring" where
  "quoteUnits [] = []"
| "quoteUnits [c] =
     (if isLeadingSurrogate c \<or> isTrailingSurrogate c then unicodeEscape c else quoteUnit c)"
| "quoteUnits (c # d # cs) =
     (if isLeadingSurrogate c then
        (if isTrailingSurrogate d then c # d # quoteUnits cs
         else unicodeEscape c @ quoteUnits (d # cs))
      else if isTrailingSurrogate c then unicodeEscape c @ quoteUnits (d # cs)
      else quoteUnit c @ quoteUnits (d # cs))"

definition quoteJSONString :: "jsstring \<Rightarrow> jsstring" where
  "quoteJSONString s = quotationMark # quoteUnits s @ [quotationMark]"

definition gap :: jsstring where
  "gap = js ''  ''"

text \<open>The parts of an array or object between its brackets, one per line.\<close>

fun joinLines :: "jsstring \<Rightarrow> jsstring list \<Rightarrow> jsstring" where
  "joinLines indent [] = []"
| "joinLines indent [p] = p"
| "joinLines indent (p # q # ps) = p @ ch CHR '','' # lineFeed # indent @ joinLines indent (q # ps)"

definition wrapLines :: "jschar \<Rightarrow> jschar \<Rightarrow> jsstring \<Rightarrow> jsstring list \<Rightarrow> jsstring" where
  "wrapLines opening closing stepback partial =
     (if partial = [] then [opening, closing]
      else opening # lineFeed # (stepback @ gap) @ joinLines (stepback @ gap) partial
             @ lineFeed # stepback @ [closing])"

text \<open>
  \<^verbatim>\<open>SerializeJSONProperty\<close>, \<^verbatim>\<open>SerializeJSONArray\<close> and \<^verbatim>\<open>SerializeJSONObject\<close> at a
  given indentation. The result is \<open>None\<close> for \<^verbatim>\<open>undefined\<close>: such a property is left
  out of an object, and such an element is written \<open>null\<close> in an array. An object that
  is already being serialized further up is a \<^verbatim>\<open>TypeError\<close> (a circular structure). A
  finite number is written as \<^verbatim>\<open>Number.prototype.toString\<close> writes it, an infinite one
  as \<open>null\<close>.
\<close>

fun serializeJSONProperty :: "jsstring \<Rightarrow> jsval \<Rightarrow> error + jsstring option"
  and serializeElements :: "jsstring \<Rightarrow> jsval list \<Rightarrow> error + jsstring list"
  and serializeMembers :: "jsstring \<Rightarrow> (jsstring \<times> jsval) list \<Rightarrow> error + jsstring list"
where
  "serializeJSONProperty indent Undefined = Inr None"
| "serializeJSONProperty indent Null = Inr (Some (js ''null''))"
| "serializeJSONProperty indent (Bool b) = Inr (Some (if b then js ''true'' else js ''false''))"
| "serializeJSONProperty indent (Num l) =
     Inr (Some (if isFiniteNumber l then numberToString l else js ''null''))"
| "serializeJSONProperty indent (Str s) = Inr (Some (quoteJSONString s))"
| "serializeJSONProperty indent (BackRef n) = Inl TypeError"
| "serializeJSONProperty indent (Arr xs) =
     (case serializeElements (indent @ gap) xs of
        Inl e \<Rightarrow> Inl e
      | Inr partial \<Rightarrow> Inr (Some (wrapLines (ch CHR ''['') (ch CHR '']'') indent partial)))"
| "serializeJSONProperty indent (Obj ps) =
     (case serializeMembers (indent @ gap) ps of
        Inl e \<Rightarrow> Inl e
      | Inr partial \<Rightarrow> Inr (Some (wrapLines (ch CHR ''{'') (ch CHR ''}'') indent partial)))"
| "serializeElements indent [] = Inr []"
| "serializeElements indent (x # xs) =
     (case serializeJSONProperty indent x of
        Inl e \<Rightarrow> Inl e
      | Inr strP \<Rightarrow>
          (case serializeElements indent xs of
             Inl e \<Rightarrow> Inl e
           | Inr partial \<Rightarrow>
               Inr ((case strP of None \<Rightarrow> js ''null'' | Some str \<Rightarrow> str) # partial)))"
| "serializeMembers indent [] = Inr []"
| "serializeMembers indent ((k, v) # ps) =
     (case serializeJSONProperty indent v of
        Inl e \<Rightarrow> Inl e
      | Inr strP \<Rightarrow>
          (case serializeMembers indent ps of
             Inl e \<Rightarrow> Inl e
           | Inr partial \<Rightarrow>
               Inr (case strP of
                      None \<Rightarrow> partial
                    | Some str \<Rightarrow> (quoteJSONString k @ ch CHR '':'' # ch CHR '' '' # str) # partial)))"

text \<open>
  \<^verbatim>\<open>JSON.stringify\<close> of an object or array: the text, or the \<^verbatim>\<open>TypeError\<close>. (Of a
  value that serializes to \<^verbatim>\<open>undefined\<close> it returns \<^verbatim>\<open>undefined\<close>, here \<open>None\<close>.)
\<close>

definition JSON_stringify :: "jsval \<Rightarrow> error + jsstring option" where
  "JSON_stringify v = serializeJSONProperty [] v"

subsection \<open>Objects from maps and back\<close>

text \<open>
  \<^verbatim>\<open>Object.fromEntries(map)\<close> defines one property per entry, and
  \<^verbatim>\<open>new Map(entries)\<close> sets one key per entry; a key that comes again replaces the
  value in place. Properties are kept in the order of their creation (JavaScript lists
  the keys that are array indices first; no result here depends on the order of keys).
\<close>

definition fromEntries :: "(jsstring \<times> jsval) list \<Rightarrow> (jsstring \<times> jsval) list" where
  "fromEntries entries = fold (\<lambda>(k, v) acc. AList.update k v acc) entries []"

text \<open>The decimal digits of an array index.\<close>

fun decimal :: "nat \<Rightarrow> jsstring" where
  "decimal n = (if n < 10 then [0x30 + of_nat n] else decimal (n div 10) @ [0x30 + of_nat (n mod 10)])"

declare decimal.simps [simp del]

text \<open>
  \<^verbatim>\<open>Object.entries(v)\<close> of a value that is neither \<^verbatim>\<open>null\<close> nor \<^verbatim>\<open>undefined\<close>: the
  properties of an object, the indexed elements of an array, the indexed characters of
  a string, nothing for a number or a boolean. (A back reference never reaches it: the
  argument is a value that \<^verbatim>\<open>JSON.parse\<close> returned.)
\<close>

fun objectEntries :: "jsval \<Rightarrow> (jsstring \<times> jsval) list" where
  "objectEntries (Obj ps) = ps"
| "objectEntries (Arr xs) = zip (map decimal [0..<length xs]) xs"
| "objectEntries (Str s) = zip (map decimal [0..<length s]) (map (\<lambda>c. Str [c]) s)"
| "objectEntries v = []"

subsection \<open>Export\<close>

text \<open>
  \<^verbatim>\<open>exportTypeInfo()\<close>: the text, or the error that \<^verbatim>\<open>JSON.stringify\<close> throws; the
  method has no handler, so the error reaches the caller.
\<close>

definition exportTypeInfo :: "registry \<Rightarrow> error + jsstring option" where
  "exportTypeInfo st =
     JSON_stringify
       (Obj [(js ''variableTypes'', Obj (fromEntries (variableTypes st))),
             (js ''blockTypes'', Obj (fromEntries (blockTypes st))),
             (js ''typeErrors'', typeErrors st)])"

subsection \<open>\<^verbatim>\<open>JSON.parse(text)\<close>\<close>

definition isWhiteSpace :: "jschar \<Rightarrow> bool" where
  "isWhiteSpace c = (c = 0x20 \<or> c = 0x09 \<or> c = 0x0A \<or> c = 0x0D)"

definition skipWs :: "jsstring \<Rightarrow> jsstring" where
  "skipWs s = dropWhile isWhiteSpace s"

text \<open>The character a two-character escape stands for.\<close>

definition unescape :: "jschar \<Rightarrow> jschar option" where
  "unescape e =
     (if e = quotationMark then Some quotationMark
      else if e = reverseSolidus then Some reverseSolidus
      else if e = ch CHR ''/'' then Some (ch CHR ''/'')
      else if e = ch CHR ''b'' then Some 0x08
      else if e = ch CHR ''f'' then Some 0x0C
      else if e = ch CHR ''n'' then Some 0x0A
      else if e = ch CHR ''r'' then Some 0x0D
      else if e = ch CHR ''t'' then Some 0x09
      else None)"

definition hex4 :: "jschar \<Rightarrow> jschar \<Rightarrow> jschar \<Rightarrow> jschar \<Rightarrow> jschar option" where
  "hex4 h1 h2 h3 h4 =
     (case (hexValue h1, hexValue h2, hexValue h3, hexValue h4) of
        (Some a, Some b, Some c, Some d) \<Rightarrow> Some (of_nat (a * 4096 + b * 256 + c * 16 + d))
      | _ \<Rightarrow> None)"

definition consUnit :: "jschar \<Rightarrow> (jsstring \<times> jsstring) option \<Rightarrow> (jsstring \<times> jsstring) option" where
  "consUnit c r = (case r of None \<Rightarrow> None | Some (str, rest) \<Rightarrow> Some (c # str, rest))"

text \<open>
  The characters of a string after its opening quotation mark, up to the closing one:
  the string they denote and the text that follows.
\<close>

fun scanString :: "jsstring \<Rightarrow> (jsstring \<times> jsstring) option" where
  "scanString [] = None"
| "scanString (c # cs) =
     (if c = quotationMark then Some ([], cs)
      else if c = reverseSolidus then
        (case cs of
           [] \<Rightarrow> None
         | e # es \<Rightarrow>
             if e = ch CHR ''u'' then
               (case es of
                  h1 # h2 # h3 # h4 # rest \<Rightarrow>
                    (case hex4 h1 h2 h3 h4 of
                       None \<Rightarrow> None
                     | Some w \<Rightarrow> consUnit w (scanString rest))
                | _ \<Rightarrow> None)
             else
               (case unescape e of
                  None \<Rightarrow> None
                | Some w \<Rightarrow> consUnit w (scanString es)))
      else if c < 0x20 then None
      else consUnit c (scanString cs))"

text \<open>
  A number: an optional minus sign, an integer part without a leading zero, an optional
  fraction, an optional exponent. The literal read and the text that follows.
\<close>

definition scanExponent :: "jsstring \<Rightarrow> jsstring \<Rightarrow> (jsstring \<times> jsstring) option" where
  "scanExponent lit s =
     (case s of
        [] \<Rightarrow> Some (lit, s)
      | c # cs \<Rightarrow>
          if c = ch CHR ''e'' \<or> c = ch CHR ''E'' then
            (let sign = (case cs of [] \<Rightarrow> [] | d # ds \<Rightarrow>
                           if d = ch CHR ''+'' \<or> d = ch CHR ''-'' then [d] else []);
                 s' = drop (length sign) cs;
                 digits = takeWhile isDigit s'
             in if digits = [] then None
                else Some (lit @ c # sign @ digits, dropWhile isDigit s'))
          else Some (lit, s))"

definition scanFraction :: "jsstring \<Rightarrow> jsstring \<Rightarrow> (jsstring \<times> jsstring) option" where
  "scanFraction lit s =
     (case s of
        [] \<Rightarrow> scanExponent lit s
      | c # cs \<Rightarrow>
          if c = ch CHR ''.'' then
            (let digits = takeWhile isDigit cs
             in if digits = [] then None
                else scanExponent (lit @ c # digits) (dropWhile isDigit cs))
          else scanExponent lit s)"

definition scanNumber :: "jsstring \<Rightarrow> (jsstring \<times> jsstring) option" where
  "scanNumber s =
     (let sign = (case s of [] \<Rightarrow> [] | c # cs \<Rightarrow> if c = ch CHR ''-'' then [c] else [])
      in case drop (length sign) s of
           [] \<Rightarrow> None
         | c # cs \<Rightarrow>
             if c = ch CHR ''0'' then scanFraction (sign @ [c]) cs
             else if isDigit c then
               scanFraction (sign @ c # takeWhile isDigit cs) (dropWhile isDigit cs)
             else None)"

lemma consUnit_shorter:
  "consUnit w r = Some (str, rest) \<Longrightarrow> \<exists>str'. r = Some (str', rest)"
  by (auto simp: consUnit_def split: option.splits)

lemma scanString_shorter: "scanString s = Some (str, rest) \<Longrightarrow> length rest < length s"
proof (induction s arbitrary: str rule: scanString.induct)
  case 1
  then show ?case by simp
next
  case (2 c cs)
  show ?case
  proof (cases "c = quotationMark")
    case True
    with "2.prems" show ?thesis by simp
  next
    case nq: False
    show ?thesis
    proof (cases "c = reverseSolidus")
      case False
      with nq "2.prems" have lt: "\<not> c < 0x20" and "consUnit c (scanString cs) = Some (str, rest)"
        by (auto split: if_splits)
      then obtain str' where "scanString cs = Some (str', rest)"
        using consUnit_shorter by blast
      with "2.IH"(3) [OF nq False lt] show ?thesis by fastforce
    next
      case bs: True
      with nq "2.prems" obtain e es where cs: "cs = e # es"
        by (cases cs) auto
      show ?thesis
      proof (cases "e = ch CHR ''u''")
        case True
        with nq bs cs "2.prems" obtain h1 h2 h3 h4 r w where
          es: "es = h1 # h2 # h3 # h4 # r" and h: "hex4 h1 h2 h3 h4 = Some w"
          and "consUnit w (scanString r) = Some (str, rest)"
          by (auto split: list.splits option.splits)
        then obtain str' where "scanString r = Some (str', rest)"
          using consUnit_shorter by blast
        with "2.IH"(1) [OF nq bs cs True es refl refl refl h] cs es show ?thesis by fastforce
      next
        case False
        with nq bs cs "2.prems" obtain w where u: "unescape e = Some w"
          and "consUnit w (scanString es) = Some (str, rest)"
          by (auto split: option.splits)
        then obtain str' where "scanString es = Some (str', rest)"
          using consUnit_shorter by blast
        with "2.IH"(2) [OF nq bs cs False u] cs show ?thesis by fastforce
      qed
    qed
  qed
qed

lemma length_skipWs: "length (skipWs s) \<le> length s"
  by (simp add: skipWs_def length_dropWhile_le)

lemma skipWs_Cons_shorter: "skipWs s = c # cs \<Longrightarrow> length cs < length s"
  using length_skipWs [of s] by simp

text \<open>
  The parser, by recursive descent: a value, the elements of an array after the first
  has been seen to exist, the members of an object likewise. A member whose key came
  before replaces that member's value. Where the parser goes on after a value, it first
  checks that the text left is shorter than the text it started from: the check always
  succeeds (lemma \<open>parseValue_shorter\<close> below), and it makes the recursion well-founded.
\<close>

function parseValue :: "jsstring \<Rightarrow> (jsval \<times> jsstring) option"
  and parseElements :: "jsval list \<Rightarrow> jsstring \<Rightarrow> (jsval \<times> jsstring) option"
  and parseMembers :: "(jsstring \<times> jsval) list \<Rightarrow> jsstring \<Rightarrow> (jsval \<times> jsstring) option"
where
  "parseValue s =
     (case skipWs s of
        [] \<Rightarrow> None
      | c # cs \<Rightarrow>
          if c = quotationMark then
            (case scanString cs of
               None \<Rightarrow> None
             | Some (str, rest) \<Rightarrow> Some (Str str, rest))
          else if c = ch CHR ''['' then
            (case skipWs cs of
               [] \<Rightarrow> None
             | d # ds \<Rightarrow> if d = ch CHR '']'' then Some (Arr [], ds) else parseElements [] cs)
          else if c = ch CHR ''{'' then
            (case skipWs cs of
               [] \<Rightarrow> None
             | d # ds \<Rightarrow> if d = ch CHR ''}'' then Some (Obj [], ds) else parseMembers [] cs)
          else if take 4 (c # cs) = js ''true'' then Some (Bool True, drop 4 (c # cs))
          else if take 5 (c # cs) = js ''false'' then Some (Bool False, drop 5 (c # cs))
          else if take 4 (c # cs) = js ''null'' then Some (Null, drop 4 (c # cs))
          else
            (case scanNumber (c # cs) of
               None \<Rightarrow> None
             | Some (l, rest) \<Rightarrow> Some (Num l, rest)))"
| "parseElements acc s =
     (case parseValue s of
        None \<Rightarrow> None
      | Some (v, rest) \<Rightarrow>
          if length rest < length s then
            (case skipWs rest of
               [] \<Rightarrow> None
             | c # cs \<Rightarrow>
                 if c = ch CHR '','' then parseElements (acc @ [v]) cs
                 else if c = ch CHR '']'' then Some (Arr (acc @ [v]), cs)
                 else None)
          else None)"
| "parseMembers acc s =
     (case skipWs s of
        [] \<Rightarrow> None
      | c # cs \<Rightarrow>
          if c = quotationMark then
            (case scanString cs of
               None \<Rightarrow> None
             | Some (k, rest) \<Rightarrow>
                 (case skipWs rest of
                    [] \<Rightarrow> None
                  | d # ds \<Rightarrow>
                      if d = ch CHR '':'' then
                        (case parseValue ds of
                           None \<Rightarrow> None
                         | Some (v, rest') \<Rightarrow>
                             if length rest' < length ds then
                               (case skipWs rest' of
                                  [] \<Rightarrow> None
                                | e # es \<Rightarrow>
                                    if e = ch CHR '','' then parseMembers (AList.update k v acc) es
                                    else if e = ch CHR ''}'' then Some (Obj (AList.update k v acc), es)
                                    else None)
                             else None)
                      else None))
          else None)"
  by pat_completeness auto
termination
proof (relation "measure (\<lambda>x. case x of
          Inl s \<Rightarrow> 2 * length s
        | Inr (Inl (acc, s)) \<Rightarrow> 2 * length s + 1
        | Inr (Inr (acc, s)) \<Rightarrow> 2 * length s + 1)", goal_cases)
  case 1
  show ?case by simp
next
  case (2 s c cs d ds)
  then show ?case using skipWs_Cons_shorter [of s c cs] by simp
next
  case (3 s c cs d ds)
  then show ?case using skipWs_Cons_shorter [of s c cs] by simp
next
  case (4 acc s)
  then show ?case by simp
next
  case (5 acc s x v rest c cs)
  then show ?case using skipWs_Cons_shorter [of rest c cs] by simp
next
  case (6 acc s c cs x k rest d ds)
  then show ?case
    using skipWs_Cons_shorter [of s c cs] skipWs_Cons_shorter [of rest d ds]
      scanString_shorter [of cs k rest]
    by simp
next
  case (7 acc s c cs x k rest d ds y v rest' e es)
  then show ?case
    using skipWs_Cons_shorter [of s c cs] skipWs_Cons_shorter [of rest d ds]
      scanString_shorter [of cs k rest] skipWs_Cons_shorter [of rest' e es]
    by simp
qed

declare parseValue.simps [simp del] parseElements.simps [simp del] parseMembers.simps [simp del]

text \<open>\<^verbatim>\<open>JSON.parse(text)\<close>: one value, with nothing but white space after it.\<close>

definition JSON_parse :: "jsstring \<Rightarrow> error + jsval" where
  "JSON_parse text =
     (case parseValue text of
        None \<Rightarrow> Inl SyntaxError
      | Some (v, rest) \<Rightarrow> if skipWs rest = [] then Inr v else Inl SyntaxError)"

subsection \<open>Import\<close>

text \<open>
  Reading a property of the parsed document: a \<^verbatim>\<open>TypeError\<close> on \<^verbatim>\<open>null\<close> (and
  \<^verbatim>\<open>undefined\<close>), the property or \<^verbatim>\<open>undefined\<close> on everything else.
\<close>

definition readProp :: "jsval \<Rightarrow> jsstring \<Rightarrow> error + jsval" where
  "readProp v k = (if v = Null \<or> v = Undefined then Inl TypeError else Inr (getProp v k))"

text \<open>\<^verbatim>\<open>a || b\<close>.\<close>

definition orElse :: "jsval \<Rightarrow> jsval \<Rightarrow> jsval" where
  "orElse a b = (if truthy a then a else b)"

text \<open>\<^verbatim>\<open>new Map(Object.entries(v))\<close>.\<close>

definition newMap :: "jsval \<Rightarrow> (jsstring \<times> jsval) list" where
  "newMap v = fromEntries (objectEntries v)"

text \<open>
  \<^verbatim>\<open>importTypeInfo(jsonString)\<close>: the three assignments of the \<^verbatim>\<open>try\<close> block in
  their order. An error thrown on the way is caught and logged, and the method returns
  with the state as the assignments made so far have left it.
\<close>

definition importTypeInfo :: "registry \<Rightarrow> jsstring \<Rightarrow> registry" where
  "importTypeInfo st jsonString =
     (case JSON_parse jsonString of
        Inl e \<Rightarrow> st
      | Inr data \<Rightarrow>
          (case readProp data (js ''variableTypes'') of
             Inl e \<Rightarrow> st
           | Inr vt \<Rightarrow>
               let st1 = st\<lparr>variableTypes := newMap (orElse vt (Obj []))\<rparr>
               in case readProp data (js ''blockTypes'') of
                    Inl e \<Rightarrow> st1
                  | Inr bt \<Rightarrow>
                      let st2 = st1\<lparr>blockTypes := newMap (orElse bt (Obj []))\<rparr>
                      in case readProp data (js ''typeErrors'') of
                           Inl e \<Rightarrow> st2
                         | Inr te \<Rightarrow> st2\<lparr>typeErrors := orElse te (Arr [])\<rparr>))"

text \<open>
  \<^verbatim>\<open>importTypeInfo(exportTypeInfo())\<close>: the import runs when the export has returned
  its text; an error of the export reaches the caller instead.
\<close>

definition roundTrip :: "registry \<Rightarrow> error + registry" where
  "roundTrip st =
     (case exportTypeInfo st of
        Inl e \<Rightarrow> Inl e
      | Inr None \<Rightarrow> Inr (importTypeInfo st (js ''undefined''))
      | Inr (Some text) \<Rightarrow> Inr (importTypeInfo st text))"
subsection \<open>Values that JSON text represents\<close>

text \<open>
  The values that survive serialization: \<^verbatim>\<open>null\<close>, booleans, finite numbers other than
  negative zero, strings, arrays of such values and objects of such values with distinct
  keys. \<^verbatim>\<open>undefined\<close> is left out or turned into \<^verbatim>\<open>null\<close> by \<^verbatim>\<open>JSON.stringify\<close>, an
  infinite number is turned into \<^verbatim>\<open>null\<close> and negative zero into zero, and a cyclic
  reference makes it throw.

  Each finite double other than negative zero has one literal that
  \<^verbatim>\<open>Number.prototype.toString\<close> writes for it, and is kept as that literal; the literal is
  a number of the JSON grammar. Another literal of the same double, such as \<open>1.0\<close> or
  \<open>1e0\<close> for \<open>1\<close>, is no other number in JavaScript: the serializer writes \<open>1\<close> for it.
\<close>

definition jsonNumber :: "jsstring \<Rightarrow> bool" where
  "jsonNumber l = (isFiniteNumber l \<and> numberToString l = l \<and> scanNumber l = Some (l, []))"

fun jsonData :: "jsval \<Rightarrow> bool"
  and jsonElements :: "jsval list \<Rightarrow> bool"
  and jsonMembers :: "(jsstring \<times> jsval) list \<Rightarrow> bool"
where
  "jsonData Undefined = False"
| "jsonData Null = True"
| "jsonData (Bool b) = True"
| "jsonData (Num l) = jsonNumber l"
| "jsonData (Str s) = True"
| "jsonData (BackRef n) = False"
| "jsonData (Arr xs) = jsonElements xs"
| "jsonData (Obj ps) = (distinct (map fst ps) \<and> jsonMembers ps)"
| "jsonElements [] = True"
| "jsonElements (x # xs) = (jsonData x \<and> jsonElements xs)"
| "jsonMembers [] = True"
| "jsonMembers ((k, v) # ps) = (jsonData v \<and> jsonMembers ps)"

text \<open>
  A registry whose maps have distinct keys (as every \<^verbatim>\<open>Map\<close> has) and whose three
  stores hold such values only.
\<close>

definition jsonRegistry :: "registry \<Rightarrow> bool" where
  "jsonRegistry st =
     (jsonData (Obj (variableTypes st)) \<and> jsonData (Obj (blockTypes st))
      \<and> jsonData (typeErrors st))"

text \<open>The characters a serialized value can begin with.\<close>

definition valueStart :: "jschar \<Rightarrow> bool" where
  "valueStart c = (c = quotationMark \<or> c = ch CHR ''['' \<or> c = ch CHR ''{''
                    \<or> c = ch CHR ''t'' \<or> c = ch CHR ''f'' \<or> c = ch CHR ''n''
                    \<or> c = ch CHR ''-'' \<or> isDigit c)"

text \<open>
  What follows a serialized value: the end of the text, the comma before the next element
  or member, or the line feed before the closing bracket.
\<close>

definition endsValue :: "jsstring \<Rightarrow> bool" where
  "endsValue rest = (case rest of [] \<Rightarrow> True | c # cs \<Rightarrow> c = ch CHR '','' \<or> c = lineFeed)"

text \<open>
  What the round trip establishes of a value, of the elements of an array and of the
  members of an object, at every indentation made of white space: the serialization
  succeeds, and the parser reads the text back.
\<close>

definition readsBack :: "jsval \<Rightarrow> bool" where
  "readsBack v =
     (\<forall>indent. list_all isWhiteSpace indent \<longrightarrow>
        (\<exists>c t. serializeJSONProperty indent v = Inr (Some (c # t)) \<and> valueStart c
               \<and> (\<forall>rest. endsValue rest \<longrightarrow> parseValue (c # t @ rest) = Some (v, rest))))"

definition elementsReadBack :: "jsval list \<Rightarrow> bool" where
  "elementsReadBack xs =
     (\<forall>indent. list_all isWhiteSpace indent \<longrightarrow>
        (\<exists>partial. serializeElements indent xs = Inr partial
           \<and> (partial = []) = (xs = [])
           \<and> (xs \<noteq> [] \<longrightarrow>
                (\<exists>c t. joinLines indent partial = c # t \<and> valueStart c
                   \<and> (\<forall>acc stepback rest. list_all isWhiteSpace stepback \<longrightarrow>
                          parseElements acc (c # t @ lineFeed # stepback @ ch CHR '']'' # rest)
                            = Some (Arr (acc @ xs), rest))))))"

definition membersReadBack :: "(jsstring \<times> jsval) list \<Rightarrow> bool" where
  "membersReadBack ps =
     (\<forall>indent. list_all isWhiteSpace indent \<longrightarrow>
        (\<exists>partial. serializeMembers indent ps = Inr partial
           \<and> (partial = []) = (ps = [])
           \<and> (ps \<noteq> [] \<longrightarrow>
                (\<exists>t. joinLines indent partial = quotationMark # t
                   \<and> (\<forall>acc stepback rest.
                          list_all isWhiteSpace stepback \<and> distinct (map fst (acc @ ps)) \<longrightarrow>
                          parseMembers acc (quotationMark # t @ lineFeed # stepback @ ch CHR ''}'' # rest)
                            = Some (Obj (acc @ ps), rest))))))"
section \<open>Properties of the compatibility predicate\<close>

lemma array_includes_numeric: "array_includes numericTypes x \<longleftrightarrow> x \<in> numeric_set"
  by (auto simp: array_includes_def numericTypes_def numeric_set_def)

lemma endsWith_suffix: "endsWith s x \<longleftrightarrow> suffix x s"
proof
  assume "endsWith s x"
  then have le: "length x \<le> length s" and eq: "take (length x) (drop (length s - length x) s) = x"
    by (auto simp: endsWith_def Let_def nat_diff_distrib' split: if_splits)
  have "s = take (length s - length x) s @ drop (length s - length x) s" by simp
  moreover have "drop (length s - length x) s = x" using eq le by simp
  ultimately show "suffix x s" by (metis suffixI)
next
  assume "suffix x s"
  then obtain p where "s = p @ x" by (auto simp: suffix_def)
  then show "endsWith s x" by (simp add: endsWith_def Let_def)
qed

lemma slice_strip: "x \<noteq> [] \<Longrightarrow> length x \<le> length s \<Longrightarrow> slice s 0 (- int (length x)) = strip_suffix x s"
proof -
  assume ne: "x \<noteq> []" and le: "length x \<le> length s"
  have n: "nat (int (length s) - int (length x)) = length s - length x"
    using le by linarith
  from ne have "0 < length x" by simp
  then show ?thesis
    using le by (simp add: slice_def strip_suffix_def Let_def rev_drop n)
qed

text \<open>
  C1: on every pair of type strings, \<open>areTypesCompatible\<close> of the source computes the
  same result as the six ordered rules of the specification.
\<close>

theorem areTypesCompatible_refines_spec: "areTypesCompatible t s = compatible_spec t s"
proof (induction t s rule: areTypesCompatible.induct)
  case (1 t s)
  have a2: "slice u 0 (- 2) = strip_suffix array_suffix u" if "suffix array_suffix u" for u
    using slice_strip [of "js ''[]''" u] suffix_length_le [OF that]
    by (simp add: array_suffix_def js_def)
  have p1: "slice u 0 (- 1) = strip_suffix pointer_suffix u" if "suffix pointer_suffix u" for u
    using slice_strip [of "js ''*''" u] suffix_length_le [OF that]
    by (simp add: pointer_suffix_def js_def)
  show ?case
    using 1 a2 p1
    by (subst areTypesCompatible.simps, subst compatible_spec.simps)
      (simp add: array_includes_numeric endsWith_suffix wildcard_def
        array_suffix_def [symmetric] pointer_suffix_def [symmetric])
qed


text \<open>
  C5: compatibility is symmetric: exchanging target and source never changes the result.
\<close>

theorem areTypesCompatible_symmetric: "areTypesCompatible a b = areTypesCompatible b a"
proof (induction a b rule: areTypesCompatible.induct)
  case (1 t s)
  note L = areTypesCompatible.simps [of t s] and R = areTypesCompatible.simps [of s t]
  show ?case
  proof (cases "t = js ''any'' \<or> s = js ''any'' \<or> t = s \<or> (array_includes numericTypes t \<and> array_includes numericTypes s)")
    case True
    then show ?thesis unfolding L R by auto
  next
    case False
    note F = False
    show ?thesis
    proof (cases "endsWith t (js ''[]'') \<and> endsWith s (js ''[]'')")
      case True
      with F 1(1) have "areTypesCompatible (slice t 0 (- 2)) (slice s 0 (- 2)) = areTypesCompatible (slice s 0 (- 2)) (slice t 0 (- 2))"
        by blast
      with F True show ?thesis unfolding L R by auto
    next
      case False
      note G = False
      show ?thesis
      proof (cases "endsWith t (js ''*'') \<and> endsWith s (js ''*'')")
        case True
        with F G 1(2) have "areTypesCompatible (slice t 0 (- 1)) (slice s 0 (- 1)) = areTypesCompatible (slice s 0 (- 1)) (slice t 0 (- 1))"
          by blast
        with F G True show ?thesis unfolding L R by auto
      next
        case False
        with F G show ?thesis unfolding L R by auto
      qed
    qed
  qed
qed

text \<open>
  C6: the wildcard \<open>any\<close> is compatible with every type on either side, and every type is
  compatible with itself.
\<close>

theorem areTypesCompatible_any_refl: "areTypesCompatible (js ''any'') T \<and> areTypesCompatible T (js ''any'') \<and> areTypesCompatible T T"
proof (intro conjI)
  show "areTypesCompatible (js ''any'') T" by (subst areTypesCompatible.simps) simp
  show "areTypesCompatible T (js ''any'')" by (subst areTypesCompatible.simps) simp
  show "areTypesCompatible T T" by (subst areTypesCompatible.simps) simp
qed

text \<open>
  The suffix rules hand the bases to all the rules again: two array types with different
  bases that are not numeric are incompatible, and two pointer types whose bases are both
  numeric are compatible.
\<close>

lemma array_and_pointer_examples:
  "areTypesCompatible (js ''number[]'') (js ''number[]'')"
  "\<not> areTypesCompatible (js ''number[]'') (js ''string[]'')"
  "areTypesCompatible (js ''int*'') (js ''int*'')"
  "areTypesCompatible (js ''int*'') (js ''float*'')"
  by code_simp+

section \<open>Numbers and their text\<close>

text \<open>
  The text of a number is that of the double nearest to the literal: zeros at the end
  of a fraction go, an integer above \<open>2\<^sup>5\<^sup>3\<close> is written as the double it rounds to, the
  exponent form begins at \<open>10\<^sup>2\<^sup>1\<close> and below \<open>10\<^sup>-\<^sup>6\<close>, and a literal too small for a
  double is zero, one too large infinite.
\<close>

lemma numberToString_examples:
  "numberToString (js ''42'') = js ''42''"
  "numberToString (js ''1.50'') = js ''1.5''"
  "numberToString (js ''-12.5e-3'') = js ''-0.0125''"
  "numberToString (js ''1e21'') = js ''1e+21''"
  "numberToString (js ''0.0000001'') = js ''1e-7''"
  "numberToString (js ''9007199254740993'') = js ''9007199254740992''"
  "numberToString (js ''-0'') = js ''0''"
  "numberToString (js ''1e-400'') = js ''0''"
  "numberToString (js ''1e999'') = js ''Infinity''"
  by code_simp+

lemma truthy_examples:
  "truthy (Num (js ''42''))" "\<not> truthy (Num (js ''0''))" "\<not> truthy (Num (js ''-0.0''))"
  "\<not> truthy (Num (js ''1e-400''))"
  by code_simp+

section \<open>Properties of the scan\<close>

lemma js_append: "js (a @ b) = js a @ js b"
  by (simp add: js_def)

lemma string_includes_middle: "string_includes (p @ x @ q) x"
  unfolding string_includes_def list_ex_iff
  by (rule bexI [where x = "length p"]) auto

lemma pushTypeError_variableTypes:
  "pushTypeError st e = Inr st' \<Longrightarrow> variableTypes st' = variableTypes st"
  by (auto simp: pushTypeError_def split: jsval.splits)

lemma checkGetter_variableTypes:
  "checkGetter st b = Inr st' \<Longrightarrow> variableTypes st' = variableTypes st"
  by (auto simp: checkGetter_def Let_def dest: pushTypeError_variableTypes
      split: if_splits sum.splits bool.splits)

lemma checkSetter_variableTypes:
  "checkSetter st b = Inr st' \<Longrightarrow> variableTypes st' = variableTypes st"
  by (auto simp: checkSetter_def Let_def dest: pushTypeError_variableTypes
      split: if_splits sum.splits bool.splits)

lemma isVariableDeclared_cong:
  "variableTypes st' = variableTypes st \<Longrightarrow> isVariableDeclared st' n = isVariableDeclared st n"
  by (simp add: isVariableDeclared_def)

lemma checkDeclaration_declared:
  "checkDeclaration st b = Inr st' \<Longrightarrow> \<not> declares b n \<Longrightarrow>
     isVariableDeclared st' n = isVariableDeclared st n"
  by (auto simp: checkDeclaration_def Let_def declares_def isDeclaration_def declaredName_def
      isVariableDeclared_def registerVariable_def update_conv'
      dest!: pushTypeError_variableTypes split: if_splits)

lemma checkBlockTypeErrors_declared:
  assumes "checkBlockTypeErrors st b = Inr st'" and "\<not> declares b n"
  shows "isVariableDeclared st' n = isVariableDeclared st n"
proof -
  from assms(1) obtain st1 st2 where g: "checkGetter st b = Inr st1"
    and s: "checkSetter st1 b = Inr st2" and d: "checkDeclaration st2 b = Inr st'"
    by (auto simp: checkBlockTypeErrors_def split: sum.splits)
  have "isVariableDeclared st1 n = isVariableDeclared st n"
    using checkGetter_variableTypes [OF g] by (rule isVariableDeclared_cong)
  moreover have "isVariableDeclared st2 n = isVariableDeclared st1 n"
    using checkSetter_variableTypes [OF s] by (rule isVariableDeclared_cong)
  moreover have "isVariableDeclared st' n = isVariableDeclared st2 n"
    using checkDeclaration_declared [OF d assms(2)] .
  ultimately show ?thesis by simp
qed

lemma checkBlocks_declared:
  "checkBlocks st bs = Inr st' \<Longrightarrow> list_all (\<lambda>d. \<not> declares d n) bs \<Longrightarrow>
     isVariableDeclared st' n = isVariableDeclared st n"
proof (induction bs arbitrary: st)
  case Nil
  then show ?case by simp
next
  case (Cons b bs)
  from Cons.prems(1) obtain st1 where b: "checkBlockTypeErrors st b = Inr st1"
    and r: "checkBlocks st1 bs = Inr st'"
    by (auto split: sum.splits)
  from Cons.prems(2) have nb: "\<not> declares b n" and nbs: "list_all (\<lambda>d. \<not> declares d n) bs"
    by simp_all
  show ?case
    using Cons.IH [OF r nbs] checkBlockTypeErrors_declared [OF b nb] by simp
qed

lemma checkBlocks_append:
  "checkBlocks st (xs @ ys) =
     (case checkBlocks st xs of Inl e \<Rightarrow> Inl e | Inr st' \<Rightarrow> checkBlocks st' ys)"
  by (induction xs arbitrary: st) (auto split: sum.splits)

lemma getVariableType_undeclared:
  "\<not> isVariableDeclared st n \<Longrightarrow> getVariableType st n = Null"
  by (simp add: isVariableDeclared_def getVariableType_def)

lemma block_tags_distinct:
  "js ''typed_lexical_variable_get'' \<noteq> js ''typed_global_declaration''"
  "js ''typed_lexical_variable_get'' \<noteq> js ''typed_local_declaration_statement''"
  "js ''typed_lexical_variable_set'' \<noteq> js ''typed_global_declaration''"
  "js ''typed_lexical_variable_set'' \<noteq> js ''typed_local_declaration_statement''"
  "js ''typed_lexical_variable_get'' \<noteq> js ''typed_lexical_variable_set''"
  "js ''typed_global_declaration'' \<noteq> js ''typed_local_declaration_statement''"
  by (simp_all add: js_def)

lemma reference_skipped:
  "\<not> isVariableDeclared st n \<Longrightarrow> references b n \<Longrightarrow> checkBlockTypeErrors st b = Inr st"
  using block_tags_distinct
  by (auto simp: references_def checkBlockTypeErrors_def checkGetter_def checkSetter_def
      checkDeclaration_def getVariableType_undeclared)

text \<open>
  C4, amended: the scan is one pass in list order. When a name is not registered as the
  scan starts (a new or reset registry: a scan clears the diagnostics and keeps the
  variable map) and no block before a getter or setter of that name declares it, the
  getter or setter finds no registered type and leaves the state as it is: no
  diagnostic, and the whole scan gives the same result as the scan of the list without
  that block.
\<close>

theorem forward_reference_skipped:
  assumes undeclared: "\<not> isVariableDeclared st n"
    and before: "list_all (\<lambda>d. \<not> declares d n) pre"
    and ref: "references b n"
  shows "(\<forall>st1. checkTypeErrors st pre = Inr st1 \<longrightarrow> checkBlockTypeErrors st1 b = Inr st1)
       \<and> checkTypeErrors st (pre @ b # post) = checkTypeErrors st (pre @ post)"
proof -
  let ?st0 = "st\<lparr>typeErrors := Arr []\<rparr>"
  have u0: "\<not> isVariableDeclared ?st0 n"
    using undeclared by (simp add: isVariableDeclared_def)
  have skip: "checkBlockTypeErrors st1 b = Inr st1" if "checkBlocks ?st0 pre = Inr st1" for st1
    using checkBlocks_declared [OF that before] u0 ref by (simp add: reference_skipped)
  have "checkBlocks ?st0 (pre @ b # post) = checkBlocks ?st0 (pre @ post)"
    using skip by (auto simp: checkBlocks_append split: sum.splits)
  with skip show ?thesis by (simp add: checkTypeErrors_def)
qed


lemma typeErrors_checkTypeErrors_start: "typeErrors (st\<lparr>typeErrors := Arr []\<rparr>) = Arr []"
  by simp

lemma duplicate_step:
  assumes "declares d n" and "isVariableDeclared st n" and "typeErrors st = Arr es"
  shows "checkBlockTypeErrors st d =
           Inr (st\<lparr>typeErrors := Arr (es @ [typeError d (js ''Variable '' @ n @ js '' is already declared'')])\<rparr>)"
  using assms block_tags_distinct
  by (auto simp: declares_def isDeclaration_def declaredName_def checkBlockTypeErrors_def
      checkGetter_def checkSetter_def checkDeclaration_def pushTypeError_def)

lemma first_step:
  assumes "declares d n" and "\<not> isVariableDeclared st n"
  shows "checkBlockTypeErrors st d =
           Inr (registerVariable st n (getFieldValue d (js ''TYPE''))
                  (if blockType d = js ''typed_global_declaration'' then js ''global'' else js ''local''))"
  using assms block_tags_distinct
  by (auto simp: declares_def isDeclaration_def declaredName_def checkBlockTypeErrors_def
      checkGetter_def checkSetter_def checkDeclaration_def)

lemma registerVariable_declared: "isVariableDeclared (registerVariable st n t sc) n"
  by (simp add: isVariableDeclared_def registerVariable_def update_conv')

lemma registerVariable_type: "getVariableType (registerVariable st n t sc) n = Str t"
  by (simp add: getVariableType_def registerVariable_def update_conv' js_def)

lemma registerVariable_typeErrors: "typeErrors (registerVariable st n t sc) = typeErrors st"
  by (simp add: registerVariable_def)

lemma getVariableType_typeErrors_update:
  "getVariableType (st\<lparr>typeErrors := e\<rparr>) n = getVariableType st n"
  by (simp add: getVariableType_def)

lemma mentions_already_declared:
  "mentions (js ''already declared'') (typeError d (js ''Variable '' @ n @ js '' is already declared''))"
proof -
  have "js '' is already declared'' = js '' is '' @ js ''already declared'' @ []"
    by (simp add: js_def)
  then have "js ''Variable '' @ n @ js '' is already declared''
      = (js ''Variable '' @ n @ js '' is '') @ js ''already declared'' @ []"
    by simp
  then have "string_includes (js ''Variable '' @ n @ js '' is already declared'') (js ''already declared'')"
    using string_includes_middle [of "js ''Variable '' @ n @ js '' is ''" "js ''already declared''" "[]"]
    by simp
  then show ?thesis
    by (simp add: mentions_def typeError_def js_def)
qed

text \<open>
  C2: a declaration block of either kind whose name is already declared adds one
  diagnostic of severity \<open>error\<close> whose message mentions \<open>already declared\<close>, and
  leaves the variable map as it is. Scanning two declarations of a name that was not
  registered before keeps the type of the first: \<open>getVariableType\<close> returns it.
\<close>

theorem duplicate_declaration_reported:
  assumes d2: "declares d2 n"
  shows "(\<forall>st es. isVariableDeclared st n \<and> typeErrors st = Arr es \<longrightarrow>
            checkBlockTypeErrors st d2 =
              Inr (st\<lparr>typeErrors :=
                     Arr (es @ [typeError d2 (js ''Variable '' @ n @ js '' is already declared'')])\<rparr>))
       \<and> mentions (js ''already declared'')
            (typeError d2 (js ''Variable '' @ n @ js '' is already declared''))
       \<and> getProp (typeError d2 (js ''Variable '' @ n @ js '' is already declared'')) (js ''severity'')
            = Str (js ''error'')
       \<and> (\<forall>st d1. declares d1 n \<and> \<not> isVariableDeclared st n \<longrightarrow>
            (\<exists>st'. checkTypeErrors st [d1, d2] = Inr st'
               \<and> getVariableType st' n = Str (getFieldValue d1 (js ''TYPE''))
               \<and> typeErrors st' =
                   Arr [typeError d2 (js ''Variable '' @ n @ js '' is already declared'')]))"
proof (intro conjI allI impI)
  fix st es
  assume "isVariableDeclared st n \<and> typeErrors st = Arr es"
  then show "checkBlockTypeErrors st d2 =
      Inr (st\<lparr>typeErrors := Arr (es @ [typeError d2 (js ''Variable '' @ n @ js '' is already declared'')])\<rparr>)"
    using duplicate_step [OF d2] by blast
next
  show "mentions (js ''already declared'')
      (typeError d2 (js ''Variable '' @ n @ js '' is already declared''))"
    by (rule mentions_already_declared)
next
  show "getProp (typeError d2 (js ''Variable '' @ n @ js '' is already declared'')) (js ''severity'')
      = Str (js ''error'')"
    by (simp add: typeError_def js_def)
next
  fix st d1
  assume a: "declares d1 n \<and> \<not> isVariableDeclared st n"
  let ?st0 = "st\<lparr>typeErrors := Arr []\<rparr>"
  let ?sc = "if blockType d1 = js ''typed_global_declaration'' then js ''global'' else js ''local''"
  let ?st1 = "registerVariable ?st0 n (getFieldValue d1 (js ''TYPE'')) ?sc"
  let ?e = "typeError d2 (js ''Variable '' @ n @ js '' is already declared'')"
  from a have u0: "\<not> isVariableDeclared ?st0 n" by (simp add: isVariableDeclared_def)
  from a have s1: "checkBlockTypeErrors ?st0 d1 = Inr ?st1"
    using first_step [OF _ u0] by blast
  have s2: "checkBlockTypeErrors ?st1 d2 = Inr (?st1\<lparr>typeErrors := Arr ([] @ [?e])\<rparr>)"
    by (rule duplicate_step [OF d2 registerVariable_declared])
      (simp add: registerVariable_typeErrors)
  have "checkTypeErrors st [d1, d2] = Inr (?st1\<lparr>typeErrors := Arr [?e]\<rparr>)"
    using s1 s2 by (simp add: checkTypeErrors_def)
  moreover have "getVariableType (?st1\<lparr>typeErrors := Arr [?e]\<rparr>) n = Str (getFieldValue d1 (js ''TYPE''))"
    by (simp only: getVariableType_typeErrors_update registerVariable_type)
  ultimately show "\<exists>st'. checkTypeErrors st [d1, d2] = Inr st'
      \<and> getVariableType st' n = Str (getFieldValue d1 (js ''TYPE''))
      \<and> typeErrors st' = Arr [?e]"
    by simp
qed


theorem duplicate_declaration_reported_witness:
  "declares (globalDeclaration (js ''counter'') (js ''string'')) (js ''counter'')
   \<and> (\<exists>st'. checkTypeErrors TypeManager
              [localDeclaration (js ''counter'') (js ''number''),
               globalDeclaration (js ''counter'') (js ''string'')] = Inr st'
          \<and> getVariableType st' (js ''counter'') = Str (js ''number'')
          \<and> errorsMentioning (js ''already declared'') (typeErrors st') \<noteq> [])"
proof -
  let ?d1 = "localDeclaration (js ''counter'') (js ''number'')"
  let ?d2 = "globalDeclaration (js ''counter'') (js ''string'')"
  have h2: "declares ?d2 (js ''counter'')"
    by (simp add: declares_def isDeclaration_def declaredName_def globalDeclaration_def)
  have h1: "declares ?d1 (js ''counter'')"
    by (simp add: declares_def isDeclaration_def declaredName_def localDeclaration_def js_def)
  have fresh: "\<not> isVariableDeclared TypeManager (js ''counter'')"
    by (simp add: isVariableDeclared_def TypeManager_def)
  have t1: "getFieldValue ?d1 (js ''TYPE'') = js ''number''"
    by (simp add: localDeclaration_def js_def)
  note dup = duplicate_declaration_reported [OF h2]
  from dup have m: "mentions (js ''already declared'')
      (typeError ?d2 (js ''Variable '' @ js ''counter'' @ js '' is already declared''))"
    by blast
  from dup h1 fresh obtain st' where
    "checkTypeErrors TypeManager [?d1, ?d2] = Inr st'"
    "getVariableType st' (js ''counter'') = Str (getFieldValue ?d1 (js ''TYPE''))"
    "typeErrors st' = Arr [typeError ?d2 (js ''Variable '' @ js ''counter'' @ js '' is already declared'')]"
    by blast
  with m t1 h2 show ?thesis
    by (auto simp: errorsMentioning_def)
qed

lemma number_string_incompatible: "\<not> areTypesCompatible (js ''number'') (js ''string'')"
  by (subst areTypesCompatible.simps)
    (simp add: js_def array_includes_def numericTypes_def endsWith_def)

lemma number_int_compatible: "areTypesCompatible (js ''number'') (js ''int'')"
  by (subst areTypesCompatible.simps)
    (simp add: js_def array_includes_def numericTypes_def)

lemma mentions_type_mismatch:
  "mentions (js ''Type mismatch'') (typeError w (js ''Type mismatch: cannot assign '' @ rest))"
proof -
  have "js ''Type mismatch: cannot assign '' = [] @ js ''Type mismatch'' @ js '': cannot assign ''"
    by (simp add: js_def)
  then have "js ''Type mismatch: cannot assign '' @ rest
      = [] @ js ''Type mismatch'' @ (js '': cannot assign '' @ rest)"
    by simp
  then have "string_includes (js ''Type mismatch: cannot assign '' @ rest) (js ''Type mismatch'')"
    using string_includes_middle [of "[]" "js ''Type mismatch''" "js '': cannot assign '' @ rest"]
    by simp
  then show ?thesis
    by (simp add: mentions_def typeError_def js_def)
qed

lemma setter_step:
  assumes "blockType w = js ''typed_lexical_variable_set''"
    and "getFieldValue w (js ''VAR'') = n"
    and "getVariableType st n = Str t" and "t \<noteq> []"
    and "typeErrors st = Arr es"
  shows "checkBlockTypeErrors st w =
     (if areTypesCompatible t (blockVariableType w) then Inr st
      else Inr (st\<lparr>typeErrors := Arr (es @ [typeError w
          (js ''Type mismatch: cannot assign '' @ blockVariableType w @ js '' to variable ''
             @ n @ js '' of type '' @ t)])\<rparr>))"
  using assms block_tags_distinct
  by (auto simp: checkBlockTypeErrors_def checkGetter_def checkSetter_def checkDeclaration_def
      areTypesCompatibleWithTarget_def pushTypeError_def)

text \<open>
  C3: a local declaration of a variable with type \<open>number\<close>, followed by a setter of that
  variable, scanned on a registry where the name is not yet registered: a setter of type
  \<open>string\<close> gives a diagnostic mentioning \<open>Type mismatch\<close>, a setter of type \<open>int\<close>
  gives no diagnostic at all.
\<close>

theorem setter_mismatch_reported:
  assumes d: "blockType d = js ''typed_local_declaration_statement''"
      "getFieldValue d (js ''VAR'') = n" "getFieldValue d (js ''TYPE'') = js ''number''"
    and w: "blockType w = js ''typed_lexical_variable_set''" "getFieldValue w (js ''VAR'') = n"
    and fresh: "\<not> isVariableDeclared st n"
  shows "(blockVariableType w = js ''string'' \<longrightarrow>
            (\<exists>st'. checkTypeErrors st [d, w] = Inr st'
               \<and> typeErrors st' = Arr [typeError w
                     (js ''Type mismatch: cannot assign '' @ js ''string'' @ js '' to variable ''
                        @ n @ js '' of type '' @ js ''number'')]
               \<and> length (errorsMentioning (js ''Type mismatch'') (typeErrors st')) \<ge> 1))
       \<and> (blockVariableType w = js ''int'' \<longrightarrow>
            (\<exists>st'. checkTypeErrors st [d, w] = Inr st'
               \<and> typeErrors st' = Arr []
               \<and> errorsMentioning (js ''Type mismatch'') (typeErrors st') = []))"
proof -
  let ?st0 = "st\<lparr>typeErrors := Arr []\<rparr>"
  let ?st1 = "registerVariable ?st0 n (js ''number'') (js ''local'')"
  have dn: "declares d n"
    using d block_tags_distinct by (auto simp: declares_def isDeclaration_def declaredName_def)
  from fresh have u0: "\<not> isVariableDeclared ?st0 n" by (simp add: isVariableDeclared_def)
  have s1: "checkBlockTypeErrors ?st0 d = Inr ?st1"
    using first_step [OF dn u0] d block_tags_distinct by auto
  have ne: "js ''number'' \<noteq> []" by (simp add: js_def)
  have e1: "typeErrors ?st1 = Arr []" by (simp add: registerVariable_typeErrors)
  note s2 = setter_step [OF w registerVariable_type ne e1]
  show ?thesis
  proof (intro conjI impI)
    assume t: "blockVariableType w = js ''string''"
    let ?e = "typeError w (js ''Type mismatch: cannot assign '' @ js ''string'' @ js '' to variable ''
                        @ n @ js '' of type '' @ js ''number'')"
    have "checkTypeErrors st [d, w] = Inr (?st1\<lparr>typeErrors := Arr [?e]\<rparr>)"
      using s1 s2 t number_string_incompatible by (simp add: checkTypeErrors_def)
    moreover have "mentions (js ''Type mismatch'') ?e"
      by (rule mentions_type_mismatch)
    ultimately show "\<exists>st'. checkTypeErrors st [d, w] = Inr st'
               \<and> typeErrors st' = Arr [?e]
               \<and> length (errorsMentioning (js ''Type mismatch'') (typeErrors st')) \<ge> 1"
      by (simp add: errorsMentioning_def)
  next
    assume t: "blockVariableType w = js ''int''"
    have "checkTypeErrors st [d, w] = Inr ?st1"
      using s1 s2 t number_int_compatible by (simp add: checkTypeErrors_def)
    then show "\<exists>st'. checkTypeErrors st [d, w] = Inr st'
               \<and> typeErrors st' = Arr []
               \<and> errorsMentioning (js ''Type mismatch'') (typeErrors st') = []"
      using e1 by (simp add: errorsMentioning_def)
  qed
qed

theorem setter_mismatch_reported_witness:
  "(\<exists>st'. checkTypeErrors TypeManager
            [localDeclaration (js ''counter'') (js ''number''),
             variableSet (js ''counter'') (js ''string'')] = Inr st'
        \<and> length (errorsMentioning (js ''Type mismatch'') (typeErrors st')) \<ge> 1)
   \<and> (\<exists>st'. checkTypeErrors TypeManager
            [localDeclaration (js ''counter'') (js ''number''),
             variableSet (js ''counter'') (js ''int'')] = Inr st'
        \<and> errorsMentioning (js ''Type mismatch'') (typeErrors st') = [])"
proof -
  let ?d = "localDeclaration (js ''counter'') (js ''number'')"
  have d: "blockType ?d = js ''typed_local_declaration_statement''"
    "getFieldValue ?d (js ''VAR'') = js ''counter''"
    "getFieldValue ?d (js ''TYPE'') = js ''number''"
    by (simp_all add: localDeclaration_def js_def)
  have w: "blockType (variableSet (js ''counter'') t) = js ''typed_lexical_variable_set''"
    "getFieldValue (variableSet (js ''counter'') t) (js ''VAR'') = js ''counter''"
    "blockVariableType (variableSet (js ''counter'') t) = t" for t
    by (simp_all add: variableSet_def)
  have fresh: "\<not> isVariableDeclared TypeManager (js ''counter'')"
    by (simp add: isVariableDeclared_def TypeManager_def)
  show ?thesis
    using setter_mismatch_reported [OF d w(1,2) fresh, of "js ''string''"]
      setter_mismatch_reported [OF d w(1,2) fresh, of "js ''int''"]
    by (simp only: w(3)) blast
qed

theorem forward_reference_skipped_witness:
  "\<not> isVariableDeclared TypeManager (js ''counter'')
   \<and> list_all (\<lambda>d. \<not> declares d (js ''counter'')) [localDeclaration (js ''other'') (js ''number'')]
   \<and> references (variableGet (js ''counter'') (js ''string'')) (js ''counter'')
   \<and> checkTypeErrors TypeManager
         [localDeclaration (js ''other'') (js ''number''),
          variableGet (js ''counter'') (js ''string''),
          localDeclaration (js ''counter'') (js ''number'')]
       = checkTypeErrors TypeManager
         [localDeclaration (js ''other'') (js ''number''),
          localDeclaration (js ''counter'') (js ''number'')]"
proof -
  have fresh: "\<not> isVariableDeclared TypeManager (js ''counter'')"
    by (simp add: isVariableDeclared_def TypeManager_def)
  have before: "list_all (\<lambda>d. \<not> declares d (js ''counter''))
      [localDeclaration (js ''other'') (js ''number'')]"
    by (simp add: declares_def declaredName_def localDeclaration_def js_def)
  have ref: "references (variableGet (js ''counter'') (js ''string'')) (js ''counter'')"
    by (simp add: references_def variableGet_def)
  from forward_reference_skipped [OF fresh before ref, of "[localDeclaration (js ''counter'') (js ''number'')]"]
  show ?thesis using fresh before ref by simp
qed

text \<open>
  C4 as stated, for every block list, fails: the variable map is not cleared by a scan.
  A getter of \<open>counter\<close> with type \<open>string\<close> stands before the declaration of \<open>counter\<close>
  as a \<open>number\<close>. The first scan of a new registry skips the getter and registers the
  variable. The second scan of the same list checks the getter against that record and
  reports a type mismatch for it, before it reports the declaration as a duplicate.
\<close>

theorem forward_reference_reported_on_rescan:
  "references (variableGet (js ''counter'') (js ''string'')) (js ''counter'')
   \<and> checkTypeErrors TypeManager
         [variableGet (js ''counter'') (js ''string''),
          localDeclaration (js ''counter'') (js ''number'')]
       = Inr (registerVariable TypeManager (js ''counter'') (js ''number'') (js ''local''))
   \<and> checkTypeErrors (registerVariable TypeManager (js ''counter'') (js ''number'') (js ''local''))
         [variableGet (js ''counter'') (js ''string''),
          localDeclaration (js ''counter'') (js ''number'')]
       = Inr ((registerVariable TypeManager (js ''counter'') (js ''number'') (js ''local''))
                \<lparr>typeErrors :=
                   Arr [typeError (variableGet (js ''counter'') (js ''string''))
                          (js ''Type mismatch: expected string, got number for variable counter''),
                        typeError (localDeclaration (js ''counter'') (js ''number''))
                          (js ''Variable counter is already declared'')]\<rparr>)
   \<and> mentions (js ''Type mismatch'')
         (typeError (variableGet (js ''counter'') (js ''string''))
            (js ''Type mismatch: expected string, got number for variable counter''))"
  by code_simp

text \<open>
  A registered type that is not a string, here the number 5 that an imported document
  gave the variable \<open>x\<close>. A getter is compared with it and reported, with the number
  written into the message; a getter or setter of type \<open>any\<close> is compatible with it; a
  getter of an array type and a setter of any other type end the scan with the
  \<^verbatim>\<open>TypeError\<close> of calling \<^verbatim>\<open>endsWith\<close> on a number.
\<close>

lemma registered_type_not_a_string:
  "checkTypeErrors \<lparr>variableTypes = [(js ''x'', Obj [(js ''type'', Num (js ''5''))])],
                    blockTypes = [], typeErrors = Arr []\<rparr>
       [variableGet (js ''x'') (js ''string'')]
     = Inr \<lparr>variableTypes = [(js ''x'', Obj [(js ''type'', Num (js ''5''))])], blockTypes = [],
            typeErrors = Arr [typeError (variableGet (js ''x'') (js ''string''))
                                (js ''Type mismatch: expected string, got 5 for variable x'')]\<rparr>"
  "checkTypeErrors \<lparr>variableTypes = [(js ''x'', Obj [(js ''type'', Num (js ''5''))])],
                    blockTypes = [], typeErrors = Arr []\<rparr>
       [variableGet (js ''x'') (js ''any''), variableSet (js ''x'') (js ''any'')]
     = Inr \<lparr>variableTypes = [(js ''x'', Obj [(js ''type'', Num (js ''5''))])], blockTypes = [],
            typeErrors = Arr []\<rparr>"
  "checkTypeErrors \<lparr>variableTypes = [(js ''x'', Obj [(js ''type'', Num (js ''5''))])],
                    blockTypes = [], typeErrors = Arr []\<rparr>
       [variableGet (js ''x'') (js ''string[]'')] = Inl TypeError"
  "checkTypeErrors \<lparr>variableTypes = [(js ''x'', Obj [(js ''type'', Num (js ''5''))])],
                    blockTypes = [], typeErrors = Arr []\<rparr>
       [variableSet (js ''x'') (js ''string'')] = Inl TypeError"
  by code_simp+

section \<open>Properties of export and import\<close>

lemma scanExponent_length:
  "scanExponent lit s = Some (l, rest) \<Longrightarrow> length rest \<le> length s"
  using length_dropWhile_le [of isDigit "drop (length (case tl s of [] \<Rightarrow> [] | d # ds \<Rightarrow>
                           if d = ch CHR ''+'' \<or> d = ch CHR ''-'' then [d] else [])) (tl s)"]
  by (auto simp: scanExponent_def Let_def split: list.splits if_splits)

lemma scanFraction_length:
  "scanFraction lit s = Some (l, rest) \<Longrightarrow> length rest \<le> length s"
  using length_dropWhile_le [of isDigit "tl s"]
  by (auto simp: scanFraction_def Let_def split: list.splits if_splits
      dest!: scanExponent_length)

lemma scanNumber_shorter:
  "scanNumber s = Some (l, rest) \<Longrightarrow> length rest < length s"
proof -
  assume a: "scanNumber s = Some (l, rest)"
  define sign where "sign = (case s of [] \<Rightarrow> [] | c # cs \<Rightarrow> if c = ch CHR ''-'' then [c] else [])"
  from a obtain c cs where d: "drop (length sign) s = c # cs"
    by (cases "drop (length sign) s") (auto simp: scanNumber_def sign_def Let_def)
  have "length (drop (length sign) s) \<le> length s" by simp
  with d have cs: "length cs < length s" by simp
  from a d have "(\<exists>lit. scanFraction lit cs = Some (l, rest))
      \<or> (\<exists>lit. scanFraction lit (dropWhile isDigit cs) = Some (l, rest))"
    by (auto simp: scanNumber_def sign_def [symmetric] Let_def split: if_splits)
  then have "length rest \<le> length cs"
    using length_dropWhile_le [of isDigit cs] by (auto dest!: scanFraction_length)
  with cs show ?thesis by simp
qed

lemma parse_shorter_aux:
  "length s \<le> n \<Longrightarrow>
     (\<forall>v rest. parseValue s = Some (v, rest) \<longrightarrow> length rest < length s)
   \<and> (\<forall>acc v rest. parseElements acc s = Some (v, rest) \<longrightarrow> length rest < length s)
   \<and> (\<forall>acc v rest. parseMembers acc s = Some (v, rest) \<longrightarrow> length rest < length s)"
proof (induction n arbitrary: s rule: less_induct)
  case (less n)
  have IHe: "length rest < length s"
    if "parseElements acc t = Some (v, rest)" "length t < length s" for acc t v rest
    using less.IH [of "length t" t] that less.prems by fastforce
  have IHm: "length rest < length s"
    if "parseMembers acc t = Some (v, rest)" "length t < length s" for acc t v rest
    using less.IH [of "length t" t] that less.prems by fastforce
  have W: "length ds < length s" if "skipWs t = d # ds" "length t < length s" for t d ds
    using skipWs_Cons_shorter [OF that(1)] that(2) by simp
  have V: "length rest < length s" if pv: "parseValue s = Some (v, rest)" for v rest
  proof (cases "skipWs s")
    case Nil
    with pv show ?thesis by (simp add: parseValue.simps)
  next
    case (Cons c cs)
    note cs = skipWs_Cons_shorter [OF Cons]
    have le: "length (c # cs) \<le> length s" using length_skipWs [of s] Cons by simp
    have S: "length r < length s" if "scanString cs = Some (k, r)" for k r
      using scanString_shorter [OF that] cs by simp
    have N: "length r < length s" if "scanNumber (c # cs) = Some (k, r)" for k r
      using scanNumber_shorter [OF that] le by simp
    from pv have "(case skipWs s of
        [] \<Rightarrow> None
      | c # cs \<Rightarrow>
          if c = quotationMark then
            (case scanString cs of
               None \<Rightarrow> None
             | Some (str, rest) \<Rightarrow> Some (Str str, rest))
          else if c = ch CHR ''['' then
            (case skipWs cs of
               [] \<Rightarrow> None
             | d # ds \<Rightarrow> if d = ch CHR '']'' then Some (Arr [], ds) else parseElements [] cs)
          else if c = ch CHR ''{'' then
            (case skipWs cs of
               [] \<Rightarrow> None
             | d # ds \<Rightarrow> if d = ch CHR ''}'' then Some (Obj [], ds) else parseMembers [] cs)
          else if take 4 (c # cs) = js ''true'' then Some (Bool True, drop 4 (c # cs))
          else if take 5 (c # cs) = js ''false'' then Some (Bool False, drop 5 (c # cs))
          else if take 4 (c # cs) = js ''null'' then Some (Null, drop 4 (c # cs))
          else
            (case scanNumber (c # cs) of
               None \<Rightarrow> None
             | Some (l, rest) \<Rightarrow> Some (Num l, rest))) = Some (v, rest)"
      by (simp only: parseValue.simps [symmetric])
    with Cons cs le show ?thesis
      by (auto split: if_splits option.splits list.splits intro: IHe IHm W S N)
  qed
  have E: "length rest < length s" if pe: "parseElements acc s = Some (v, rest)" for acc v rest
  proof -
    from pe have "(case parseValue s of
        None \<Rightarrow> None
      | Some (v, rest) \<Rightarrow>
          if length rest < length s then
            (case skipWs rest of
               [] \<Rightarrow> None
             | c # cs \<Rightarrow>
                 if c = ch CHR '','' then parseElements (acc @ [v]) cs
                 else if c = ch CHR '']'' then Some (Arr (acc @ [v]), cs)
                 else None)
          else None) = Some (v, rest)"
      by (simp only: parseElements.simps [symmetric])
    then show ?thesis
      by (auto split: if_splits option.splits list.splits; blast intro: IHe W)
  qed
  have M: "length rest < length s" if pm: "parseMembers acc s = Some (v, rest)" for acc v rest
  proof -
    from pm have *: "(case skipWs s of
        [] \<Rightarrow> None
      | c # cs \<Rightarrow>
          if c = quotationMark then
            (case scanString cs of
               None \<Rightarrow> None
             | Some (k, rest) \<Rightarrow>
                 (case skipWs rest of
                    [] \<Rightarrow> None
                  | d # ds \<Rightarrow>
                      if d = ch CHR '':'' then
                        (case parseValue ds of
                           None \<Rightarrow> None
                         | Some (v, rest') \<Rightarrow>
                             if length rest' < length ds then
                               (case skipWs rest' of
                                  [] \<Rightarrow> None
                                | e # es \<Rightarrow>
                                    if e = ch CHR '','' then parseMembers (AList.update k v acc) es
                                    else if e = ch CHR ''}'' then Some (Obj (AList.update k v acc), es)
                                    else None)
                             else None)
                      else None))
          else None) = Some (v, rest)"
      by (simp only: parseMembers.simps [symmetric])
    then obtain c cs k r1 d ds v1 r2 where
      s: "skipWs s = c # cs" and k: "scanString cs = Some (k, r1)"
      and r: "skipWs r1 = d # ds" and p: "parseValue ds = Some (v1, r2)"
      and l: "length r2 < length ds"
      by (auto split: option.splits if_splits list.splits)
    have ds: "length ds < length s"
      using skipWs_Cons_shorter [OF s] scanString_shorter [OF k] skipWs_Cons_shorter [OF r]
      by simp
    with l have r2: "length r2 < length s" by simp
    from * s k r p l r2 show ?thesis
      by (auto split: if_splits list.splits; blast intro: IHm W)
  qed
  from V E M show ?case by blast
qed

lemma parseValue_shorter: "parseValue s = Some (v, rest) \<Longrightarrow> length rest < length s"
  using parse_shorter_aux [of s "length s"] by blast


lemma parseElements_unfold:
  "parseElements acc s =
     (case parseValue s of
        None \<Rightarrow> None
      | Some (v, rest) \<Rightarrow>
          (case skipWs rest of
             [] \<Rightarrow> None
           | c # cs \<Rightarrow>
               if c = ch CHR '','' then parseElements (acc @ [v]) cs
               else if c = ch CHR '']'' then Some (Arr (acc @ [v]), cs)
               else None))"
  by (subst parseElements.simps) (auto split: option.splits dest: parseValue_shorter)

lemma parseMembers_unfold:
  "parseMembers acc s =
     (case skipWs s of
        [] \<Rightarrow> None
      | c # cs \<Rightarrow>
          if c = quotationMark then
            (case scanString cs of
               None \<Rightarrow> None
             | Some (k, rest) \<Rightarrow>
                 (case skipWs rest of
                    [] \<Rightarrow> None
                  | d # ds \<Rightarrow>
                      if d = ch CHR '':'' then
                        (case parseValue ds of
                           None \<Rightarrow> None
                         | Some (v, rest') \<Rightarrow>
                             (case skipWs rest' of
                                [] \<Rightarrow> None
                              | e # es \<Rightarrow>
                                  if e = ch CHR '','' then parseMembers (AList.update k v acc) es
                                  else if e = ch CHR ''}'' then Some (Obj (AList.update k v acc), es)
                                  else None))
                      else None))
          else None)"
  by (subst parseMembers.simps) (auto split: option.splits list.splits dest: parseValue_shorter)

lemma skipWs_append_ws: "list_all isWhiteSpace w \<Longrightarrow> skipWs (w @ t) = skipWs t"
  by (induction w) (auto simp: skipWs_def)

lemma skipWs_Cons_not_ws: "\<not> isWhiteSpace c \<Longrightarrow> skipWs (c # t) = c # t"
  by (simp add: skipWs_def)

lemma parseValue_ws: "list_all isWhiteSpace w \<Longrightarrow> parseValue (w @ t) = parseValue t"
  by (simp add: parseValue.simps [of "w @ t"] parseValue.simps [of t] skipWs_append_ws)

lemma parseElements_ws: "list_all isWhiteSpace w \<Longrightarrow> parseElements acc (w @ t) = parseElements acc t"
  by (simp add: parseElements_unfold [of acc "w @ t"] parseElements_unfold [of acc t] parseValue_ws)

lemma parseMembers_ws: "list_all isWhiteSpace w \<Longrightarrow> parseMembers acc (w @ t) = parseMembers acc t"
  by (simp add: parseMembers_unfold [of acc "w @ t"] parseMembers_unfold [of acc t] skipWs_append_ws)

lemma hexValue_hexDigit_all: "list_all (\<lambda>n. hexValue (hexDigit n) = Some n) [0..<16]"
  by code_simp

lemma hexValue_hexDigit: "n < 16 \<Longrightarrow> hexValue (hexDigit n) = Some n"
  using hexValue_hexDigit_all by (simp add: list_all_iff)

lemma hex_d1: "(n::nat) div 256 mod 16 = n mod 4096 div 256"
  using mod_mult2_eq [of n 256 16] by simp

lemma hex_d2: "(n::nat) div 16 mod 16 = n mod 256 div 16"
  using mod_mult2_eq [of n 16 16] by simp

lemma hex_digits_sum:
  "n div 4096 * 4096 + n div 256 mod 16 * 256 + n div 16 mod 16 * 16 + n mod 16 = (n::nat)"
proof -
  have "n = n div 4096 * 4096 + n mod 4096" by simp
  moreover have "n mod 4096 = n mod 4096 div 256 * 256 + n mod 4096 mod 256" by simp
  moreover have "n mod 4096 mod 256 = n mod 256" by (simp add: mod_mod_cancel)
  moreover have "n mod 256 = n mod 256 div 16 * 16 + n mod 256 mod 16" by simp
  moreover have "n mod 256 mod 16 = n mod 16" by (simp add: mod_mod_cancel)
  ultimately show ?thesis unfolding hex_d1 hex_d2 by linarith
qed

lemma hex4_unicodeEscape:
  "hex4 (hexDigit (unat c div 4096)) (hexDigit (unat c div 256 mod 16))
        (hexDigit (unat c div 16 mod 16)) (hexDigit (unat c mod 16)) = Some (c :: jschar)"
proof -
  have lt: "unat c < 65536" using unsigned_less [of c] by simp
  then have d: "unat c div 4096 < 16" by simp
  have "hex4 (hexDigit (unat c div 4096)) (hexDigit (unat c div 256 mod 16))
        (hexDigit (unat c div 16 mod 16)) (hexDigit (unat c mod 16))
      = Some (of_nat (unat c div 4096 * 4096 + unat c div 256 mod 16 * 256
                        + unat c div 16 mod 16 * 16 + unat c mod 16))"
    using d by (simp add: hex4_def hexValue_hexDigit)
  also have "\<dots> = Some c"
    by (simp only: hex_digits_sum) simp
  finally show ?thesis .
qed


lemma chars_distinct:
  "reverseSolidus \<noteq> quotationMark" "ch CHR ''u'' \<noteq> quotationMark"
  by (simp_all add: reverseSolidus_def quotationMark_def ch_def)

lemma scanString_unicodeEscape:
  "scanString (unicodeEscape c @ t) = consUnit c (scanString t)"
  using hex4_unicodeEscape [of c]
  by (simp add: unicodeEscape_def Let_def chars_distinct)

lemma scanString_pass:
  "\<not> c < 0x20 \<Longrightarrow> c \<noteq> quotationMark \<Longrightarrow> c \<noteq> reverseSolidus \<Longrightarrow>
     scanString (c # t) = consUnit c (scanString t)"
  by simp

lemma scanString_escape:
  "unescape e = Some w \<Longrightarrow> e \<noteq> ch CHR ''u'' \<Longrightarrow>
     scanString (reverseSolidus # e # t) = consUnit w (scanString t)"
  by (simp add: chars_distinct)


lemma scanString_quoteUnit:
  "scanString (quoteUnit c @ t) = consUnit c (scanString t)"
proof -
  consider "c = 0x08" | "c = 0x09" | "c = 0x0A" | "c = 0x0C" | "c = 0x0D"
    | "c = quotationMark" | "c = reverseSolidus"
    | "c \<noteq> 0x08" "c \<noteq> 0x09" "c \<noteq> 0x0A" "c \<noteq> 0x0C" "c \<noteq> 0x0D"
      "c \<noteq> quotationMark" "c \<noteq> reverseSolidus"
    by blast
  then show ?thesis
  proof cases
    case 8
    then show ?thesis
      by (cases "c < 0x20") (simp_all add: quoteUnit_def scanString_unicodeEscape)
  qed (simp_all add: quoteUnit_def unescape_def ch_def quotationMark_def reverseSolidus_def)
qed

lemma surrogate_pass:
  "isLeadingSurrogate c \<or> isTrailingSurrogate c \<Longrightarrow>
     \<not> c < 0x20 \<and> c \<noteq> quotationMark \<and> c \<noteq> reverseSolidus"
  by (auto simp: isLeadingSurrogate_def isTrailingSurrogate_def quotationMark_def
      reverseSolidus_def word_le_nat_alt word_less_nat_alt)


lemma scanString_quoteUnits:
  "scanString (quoteUnits s @ quotationMark # rest) = Some (s, rest)"
proof (induction s rule: quoteUnits.induct)
  case 1
  show ?case by simp
next
  case (2 c)
  have "scanString (quotationMark # rest) = Some ([], rest)" by simp
  then show ?case
    by (simp add: scanString_unicodeEscape scanString_quoteUnit consUnit_def
        del: scanString.simps)
next
  case (3 c d cs)
  show ?case
  proof (cases "isLeadingSurrogate c")
    case lead: True
    show ?thesis
    proof (cases "isTrailingSurrogate d")
      case True
      from lead have c: "scanString (c # t) = consUnit c (scanString t)" for t
        using surrogate_pass [of c] by (intro scanString_pass) simp_all
      from True have d: "scanString (d # t) = consUnit d (scanString t)" for t
        using surrogate_pass [of d] by (intro scanString_pass) simp_all
      from lead True 3 show ?thesis
        by (simp add: c d consUnit_def del: scanString.simps)
    next
      case False
      with lead 3 show ?thesis
        by (simp add: scanString_unicodeEscape consUnit_def del: scanString.simps)
    qed
  next
    case False
    with 3 show ?thesis
      by (simp add: scanString_unicodeEscape scanString_quoteUnit consUnit_def del: scanString.simps)
  qed
qed

lemma ws_chars:
  "isWhiteSpace lineFeed" "isWhiteSpace (ch CHR '' '')"
  "\<not> isWhiteSpace (ch CHR '','')" "\<not> isWhiteSpace (ch CHR '']'')"
  "\<not> isWhiteSpace (ch CHR ''}'')" "\<not> isWhiteSpace (ch CHR '':'')"
  "\<not> isWhiteSpace quotationMark" "\<not> isWhiteSpace (ch CHR ''['')"
  "\<not> isWhiteSpace (ch CHR ''{'')"
  by (simp_all add: isWhiteSpace_def lineFeed_def ch_def quotationMark_def)

lemma valueStart_not:
  "valueStart c \<Longrightarrow> \<not> isWhiteSpace c \<and> c \<noteq> ch CHR '']'' \<and> c \<noteq> ch CHR ''}''"
  by (auto simp: valueStart_def isWhiteSpace_def isDigit_def ch_def quotationMark_def)

lemma punct_distinct:
  "ch CHR '']'' \<noteq> ch CHR '',''" "ch CHR ''}'' \<noteq> ch CHR '',''"
  "ch CHR ''['' \<noteq> quotationMark" "ch CHR ''{'' \<noteq> quotationMark"
  "ch CHR ''{'' \<noteq> ch CHR ''[''"
  by (simp_all add: ch_def quotationMark_def)

lemma gap_ws: "list_all isWhiteSpace indent \<Longrightarrow> list_all isWhiteSpace (indent @ gap)"
  by (simp add: gap_def js_def isWhiteSpace_def)

lemma endsValue_simps:
  "endsValue []" "endsValue (ch CHR '','' # r)" "endsValue (lineFeed # r)"
  by (simp_all add: endsValue_def)

lemma endsValue_cases:
  "endsValue rest \<Longrightarrow> rest = [] \<or> (\<exists>c cs. rest = c # cs \<and> \<not> isDigit c \<and> c \<noteq> ch CHR ''.''
      \<and> c \<noteq> ch CHR ''e'' \<and> c \<noteq> ch CHR ''E'')"
  by (cases rest) (auto simp: endsValue_def isDigit_def ch_def lineFeed_def)

lemma digits_append:
  assumes "endsValue rest"
  shows "takeWhile isDigit (xs @ rest) = takeWhile isDigit xs"
    and "dropWhile isDigit (xs @ rest) = dropWhile isDigit xs @ rest"
  using endsValue_cases [OF assms] by (induction xs) auto

lemma scanExponent_append:
  assumes "scanExponent lit s = Some (l, [])" and "endsValue rest"
  shows "scanExponent lit (s @ rest) = Some (l, rest)"
proof (cases s)
  case Nil
  with assms(1) have "l = lit" by (simp add: scanExponent_def)
  with Nil endsValue_cases [OF assms(2)] show ?thesis
    by (auto simp: scanExponent_def)
next
  case (Cons c cs)
  show ?thesis
  proof (cases "c = ch CHR ''e'' \<or> c = ch CHR ''E''")
    case False
    with Cons assms(1) show ?thesis by (simp add: scanExponent_def)
  next
    case True
    show ?thesis
    proof (cases cs)
      case Nil
      with Cons True assms(1) show ?thesis by (simp add: scanExponent_def)
    next
      case (Cons d ds)
      with \<open>s = c # cs\<close> True assms(1) show ?thesis
        by (auto simp: scanExponent_def Let_def digits_append [OF assms(2)] split: if_splits)
    qed
  qed
qed

lemma scanFraction_append:
  assumes "scanFraction lit s = Some (l, [])" and "endsValue rest"
  shows "scanFraction lit (s @ rest) = Some (l, rest)"
proof (cases s)
  case Nil
  with assms(1) have "scanExponent lit [] = Some (l, [])" by (simp add: scanFraction_def)
  from scanExponent_append [OF this assms(2)] Nil endsValue_cases [OF assms(2)] show ?thesis
    by (auto simp: scanFraction_def)
next
  case (Cons c cs)
  show ?thesis
  proof (cases "c = ch CHR ''.''")
    case False
    with Cons assms(1) have "scanExponent lit (c # cs) = Some (l, [])" by (simp add: scanFraction_def)
    from scanExponent_append [OF this assms(2)] Cons False show ?thesis
      by (simp add: scanFraction_def)
  next
    case True
    with Cons assms(1) have ne: "takeWhile isDigit cs \<noteq> []"
      and e: "scanExponent (lit @ c # takeWhile isDigit cs) (dropWhile isDigit cs) = Some (l, [])"
      by (auto simp: scanFraction_def Let_def split: if_splits)
    from scanExponent_append [OF e assms(2)] ne Cons True show ?thesis
      by (simp add: scanFraction_def Let_def digits_append [OF assms(2)])
  qed
qed

lemma scanNumber_append:
  assumes "scanNumber s = Some (l, [])" and "endsValue rest"
  shows "scanNumber (s @ rest) = Some (l, rest)"
proof (cases s)
  case Nil
  with assms(1) show ?thesis by (simp add: scanNumber_def)
next
  case (Cons c cs)
  show ?thesis
  proof (cases "c = ch CHR ''-''")
    case True
    with Cons assms(1) obtain d ds where cs: "cs = d # ds"
      by (cases cs) (auto simp: scanNumber_def)
    show ?thesis
    proof (cases "d = ch CHR ''0''")
      case z: True
      with Cons True cs assms(1) have "scanFraction [c, d] ds = Some (l, [])"
        by (simp add: scanNumber_def)
      from scanFraction_append [OF this assms(2)] Cons True cs z show ?thesis
        by (simp add: scanNumber_def)
    next
      case nz: False
      with Cons True cs assms(1) have dg: "isDigit d"
        and f: "scanFraction (c # d # takeWhile isDigit ds) (dropWhile isDigit ds) = Some (l, [])"
        by (auto simp: scanNumber_def split: if_splits)
      from scanFraction_append [OF f assms(2)] Cons True cs nz dg show ?thesis
        by (simp add: scanNumber_def digits_append [OF assms(2)])
    qed
  next
    case False
    show ?thesis
    proof (cases "c = ch CHR ''0''")
      case z: True
      with Cons False assms(1) have "scanFraction [c] cs = Some (l, [])"
        by (simp add: scanNumber_def)
      from scanFraction_append [OF this assms(2)] Cons False z show ?thesis
        by (simp add: scanNumber_def)
    next
      case nz: False
      with Cons False assms(1) have dg: "isDigit c"
        and f: "scanFraction (c # takeWhile isDigit cs) (dropWhile isDigit cs) = Some (l, [])"
        by (auto simp: scanNumber_def split: if_splits)
      from scanFraction_append [OF f assms(2)] Cons False nz dg show ?thesis
        by (simp add: scanNumber_def digits_append [OF assms(2)])
    qed
  qed
qed

lemma scanNumber_start:
  "scanNumber s = Some r \<Longrightarrow> \<exists>c t. s = c # t \<and> (c = ch CHR ''-'' \<or> isDigit c)"
  by (cases s) (auto simp: scanNumber_def isDigit_def ch_def split: if_splits list.splits)

lemma parseValue_number:
  assumes "c = ch CHR ''-'' \<or> isDigit c"
  shows "parseValue (c # s) =
     (case scanNumber (c # s) of None \<Rightarrow> None | Some (l, rest) \<Rightarrow> Some (Num l, rest))"
  using assms
  by (subst parseValue.simps)
    (auto simp: skipWs_def isWhiteSpace_def isDigit_def ch_def js_def quotationMark_def)

lemma readsBack_Num:
  assumes "jsonNumber l"
  shows "readsBack (Num l)"
proof -
  from assms have f: "isFiniteNumber l" and t: "numberToString l = l"
    and n: "scanNumber l = Some (l, [])"
    by (simp_all add: jsonNumber_def)
  from scanNumber_start [OF n] obtain c t where l: "l = c # t"
    and c: "c = ch CHR ''-'' \<or> isDigit c"
    by blast
  have "parseValue (c # t @ rest) = Some (Num l, rest)" if "endsValue rest" for rest
    using scanNumber_append [OF n that] l by (simp add: parseValue_number [OF c])
  with f t l c show ?thesis
    by (auto simp: readsBack_def valueStart_def)
qed

lemma readsBack_Null: "readsBack Null"
  by (simp add: readsBack_def js_def valueStart_def ch_def parseValue.simps skipWs_def
      isWhiteSpace_def quotationMark_def)

lemma readsBack_Bool: "readsBack (Bool b)"
  by (cases b)
    (simp_all add: readsBack_def js_def valueStart_def ch_def parseValue.simps skipWs_def
      isWhiteSpace_def quotationMark_def)

lemma readsBack_Str: "readsBack (Str s)"
  by (simp add: readsBack_def quoteJSONString_def valueStart_def parseValue.simps
      skipWs_Cons_not_ws ws_chars scanString_quoteUnits)


lemma parseValue_open_bracket:
  assumes "valueStart c" and "list_all isWhiteSpace w"
  shows "parseValue (ch CHR ''['' # w @ c # t) = parseElements [] (c # t)"
proof -
  have "skipWs (w @ c # t) = c # t"
    using assms valueStart_not [of c] by (simp add: skipWs_append_ws skipWs_Cons_not_ws)
  moreover have "parseElements [] (w @ c # t) = parseElements [] (c # t)"
    using assms(2) by (rule parseElements_ws)
  ultimately show ?thesis
    using valueStart_not [OF assms(1)]
    by (simp add: parseValue.simps [of "ch CHR ''['' # w @ c # t"] skipWs_Cons_not_ws ws_chars
        punct_distinct)
qed

lemma parseValue_open_brace:
  assumes "list_all isWhiteSpace w"
  shows "parseValue (ch CHR ''{'' # w @ quotationMark # t) = parseMembers [] (quotationMark # t)"
proof -
  have "skipWs (w @ quotationMark # t) = quotationMark # t"
    using assms by (simp add: skipWs_append_ws skipWs_Cons_not_ws ws_chars)
  moreover have "parseMembers [] (w @ quotationMark # t) = parseMembers [] (quotationMark # t)"
    using assms by (rule parseMembers_ws)
  moreover have "quotationMark \<noteq> ch CHR ''}''"
    by (simp add: ch_def quotationMark_def)
  ultimately show ?thesis
    by (simp add: parseValue.simps [of "ch CHR ''{'' # w @ quotationMark # t"] skipWs_Cons_not_ws
        ws_chars punct_distinct)
qed

lemma parseValue_empty_array: "parseValue (ch CHR ''['' # ch CHR '']'' # rest) = Some (Arr [], rest)"
  by (simp add: parseValue.simps skipWs_Cons_not_ws ws_chars punct_distinct)

lemma parseValue_empty_object: "parseValue (ch CHR ''{'' # ch CHR ''}'' # rest) = Some (Obj [], rest)"
  by (simp add: parseValue.simps skipWs_Cons_not_ws ws_chars punct_distinct)

lemma readsBackD:
  "readsBack v \<Longrightarrow> list_all isWhiteSpace indent \<Longrightarrow>
     \<exists>c t. serializeJSONProperty indent v = Inr (Some (c # t)) \<and> valueStart c
               \<and> (\<forall>rest. endsValue rest \<longrightarrow> parseValue (c # t @ rest) = Some (v, rest))"
  unfolding readsBack_def by (drule spec [of _ indent]) simp

lemma elementsReadBackD:
  "elementsReadBack xs \<Longrightarrow> list_all isWhiteSpace indent \<Longrightarrow>
     \<exists>partial. serializeElements indent xs = Inr partial
           \<and> (partial = []) = (xs = [])
           \<and> (xs \<noteq> [] \<longrightarrow>
                (\<exists>c t. joinLines indent partial = c # t \<and> valueStart c
                   \<and> (\<forall>acc stepback rest. list_all isWhiteSpace stepback \<longrightarrow>
                          parseElements acc (c # t @ lineFeed # stepback @ ch CHR '']'' # rest)
                            = Some (Arr (acc @ xs), rest))))"
  unfolding elementsReadBack_def by (drule spec [of _ indent]) simp

lemma membersReadBackD:
  "membersReadBack ps \<Longrightarrow> list_all isWhiteSpace indent \<Longrightarrow>
     \<exists>partial. serializeMembers indent ps = Inr partial
           \<and> (partial = []) = (ps = [])
           \<and> (ps \<noteq> [] \<longrightarrow>
                (\<exists>t. joinLines indent partial = quotationMark # t
                   \<and> (\<forall>acc stepback rest.
                          list_all isWhiteSpace stepback \<and> distinct (map fst (acc @ ps)) \<longrightarrow>
                          parseMembers acc (quotationMark # t @ lineFeed # stepback @ ch CHR ''}'' # rest)
                            = Some (Obj (acc @ ps), rest))))"
  unfolding membersReadBack_def by (drule spec [of _ indent]) simp

lemma readsBack_Arr:
  assumes "elementsReadBack xs"
  shows "readsBack (Arr xs)"
  unfolding readsBack_def
proof (intro allI impI)
  fix indent :: jsstring
  assume ws: "list_all isWhiteSpace indent"
  let ?i = "indent @ gap"
  from elementsReadBackD [OF assms gap_ws [OF ws]] obtain partial where
    ser: "serializeElements ?i xs = Inr partial" and emp: "(partial = []) = (xs = [])"
    and ne: "xs \<noteq> [] \<longrightarrow>
       (\<exists>c t. joinLines ?i partial = c # t \<and> valueStart c
          \<and> (\<forall>acc stepback rest. list_all isWhiteSpace stepback \<longrightarrow>
                 parseElements acc (c # t @ lineFeed # stepback @ ch CHR '']'' # rest)
                   = Some (Arr (acc @ xs), rest)))"
    by (elim exE conjE) (rule that)
  show "\<exists>c t. serializeJSONProperty indent (Arr xs) = Inr (Some (c # t)) \<and> valueStart c
               \<and> (\<forall>rest. endsValue rest \<longrightarrow> parseValue (c # t @ rest) = Some (Arr xs, rest))"
  proof (cases "xs = []")
    case True
    with ser emp show ?thesis
      by (simp add: wrapLines_def valueStart_def parseValue_empty_array)
  next
    case False
    with ne obtain c t where j: "joinLines ?i partial = c # t" and vs: "valueStart c"
      and p: "\<forall>acc stepback rest. list_all isWhiteSpace stepback \<longrightarrow>
                 parseElements acc (c # t @ lineFeed # stepback @ ch CHR '']'' # rest)
                   = Some (Arr (acc @ xs), rest)"
      by (elim impE exE conjE) (assumption, rule that)
    have w: "list_all isWhiteSpace (lineFeed # ?i)"
      using gap_ws [OF ws] by (simp add: ws_chars)
    have "parseValue (ch CHR ''['' # (lineFeed # ?i) @ c # (t @ lineFeed # indent @ ch CHR '']'' # rest))
        = Some (Arr xs, rest)" for rest
      using parseValue_open_bracket [OF vs w] p [rule_format, OF ws, of "[]"] by simp
    with ser emp False j vs show ?thesis
      by (simp add: wrapLines_def valueStart_def)
  qed
qed

lemma readsBack_Obj:
  assumes "membersReadBack ps" and "distinct (map fst ps)"
  shows "readsBack (Obj ps)"
  unfolding readsBack_def
proof (intro allI impI)
  fix indent :: jsstring
  assume ws: "list_all isWhiteSpace indent"
  let ?i = "indent @ gap"
  from membersReadBackD [OF assms(1) gap_ws [OF ws]] obtain partial where
    ser: "serializeMembers ?i ps = Inr partial" and emp: "(partial = []) = (ps = [])"
    and ne: "ps \<noteq> [] \<longrightarrow>
       (\<exists>t. joinLines ?i partial = quotationMark # t
          \<and> (\<forall>acc stepback rest.
                 list_all isWhiteSpace stepback \<and> distinct (map fst (acc @ ps)) \<longrightarrow>
                 parseMembers acc (quotationMark # t @ lineFeed # stepback @ ch CHR ''}'' # rest)
                   = Some (Obj (acc @ ps), rest)))"
    by (elim exE conjE) (rule that)
  show "\<exists>c t. serializeJSONProperty indent (Obj ps) = Inr (Some (c # t)) \<and> valueStart c
               \<and> (\<forall>rest. endsValue rest \<longrightarrow> parseValue (c # t @ rest) = Some (Obj ps, rest))"
  proof (cases "ps = []")
    case True
    with ser emp show ?thesis
      by (simp add: wrapLines_def valueStart_def parseValue_empty_object)
  next
    case False
    with ne obtain t where j: "joinLines ?i partial = quotationMark # t"
      and p: "\<forall>acc stepback rest.
                 list_all isWhiteSpace stepback \<and> distinct (map fst (acc @ ps)) \<longrightarrow>
                 parseMembers acc (quotationMark # t @ lineFeed # stepback @ ch CHR ''}'' # rest)
                   = Some (Obj (acc @ ps), rest)"
      by (elim impE exE conjE) (assumption, rule that)
    have w: "list_all isWhiteSpace (lineFeed # ?i)"
      using gap_ws [OF ws] by (simp add: ws_chars)
    have "parseValue (ch CHR ''{'' # (lineFeed # ?i) @ quotationMark # (t @ lineFeed # indent @ ch CHR ''}'' # rest))
        = Some (Obj ps, rest)" for rest
      using parseValue_open_brace [OF w] p [rule_format, of indent "[]"] ws assms(2) by simp
    with ser emp False j show ?thesis
      by (simp add: wrapLines_def valueStart_def)
  qed
qed

lemma skipWs_close:
  "list_all isWhiteSpace stepback \<Longrightarrow> \<not> isWhiteSpace c \<Longrightarrow>
     skipWs (lineFeed # stepback @ c # rest) = c # rest"
  using skipWs_append_ws [of "lineFeed # stepback" "c # rest"]
  by (simp add: ws_chars skipWs_Cons_not_ws)

lemma parseElements_more:
  "parseValue s = Some (v, ch CHR '','' # r) \<Longrightarrow> parseElements acc s = parseElements (acc @ [v]) r"
  by (subst parseElements_unfold) (simp add: skipWs_Cons_not_ws ws_chars)

lemma parseElements_last:
  "parseValue s = Some (v, r) \<Longrightarrow> skipWs r = ch CHR '']'' # rest \<Longrightarrow>
     parseElements acc s = Some (Arr (acc @ [v]), rest)"
  by (subst parseElements_unfold) (simp add: punct_distinct)

lemma elementsReadBack_Nil: "elementsReadBack []"
  by (simp add: elementsReadBack_def)

lemma membersReadBack_Nil: "membersReadBack []"
  by (simp add: membersReadBack_def)

lemma elementsReadBack_Cons:
  assumes x: "readsBack x" and xs: "elementsReadBack xs"
  shows "elementsReadBack (x # xs)"
  unfolding elementsReadBack_def
proof (intro allI impI)
  fix indent :: jsstring
  assume ws: "list_all isWhiteSpace indent"
  from readsBackD [OF x ws] obtain c1 t1 where
    s1: "serializeJSONProperty indent x = Inr (Some (c1 # t1))" and v1: "valueStart c1"
    and p1: "\<forall>rest. endsValue rest \<longrightarrow> parseValue (c1 # t1 @ rest) = Some (x, rest)"
    by (elim exE conjE) (rule that)
  from elementsReadBackD [OF xs ws] obtain partial where
    ser: "serializeElements indent xs = Inr partial" and emp: "(partial = []) = (xs = [])"
    and ne: "xs \<noteq> [] \<longrightarrow>
       (\<exists>c t. joinLines indent partial = c # t \<and> valueStart c
          \<and> (\<forall>acc stepback rest. list_all isWhiteSpace stepback \<longrightarrow>
                 parseElements acc (c # t @ lineFeed # stepback @ ch CHR '']'' # rest)
                   = Some (Arr (acc @ xs), rest)))"
    by (elim exE conjE) (rule that)
  have S: "serializeElements indent (x # xs) = Inr ((c1 # t1) # partial)"
    using s1 ser by simp
  have "\<exists>t. joinLines indent ((c1 # t1) # partial) = c1 # t
          \<and> (\<forall>acc stepback rest. list_all isWhiteSpace stepback \<longrightarrow>
                 parseElements acc (c1 # t @ lineFeed # stepback @ ch CHR '']'' # rest)
                   = Some (Arr (acc @ x # xs), rest))"
  proof (cases "xs = []")
    case True
    with emp have pe: "partial = []" by simp
    have "parseElements acc (c1 # t1 @ lineFeed # stepback @ ch CHR '']'' # rest)
        = Some (Arr (acc @ [x]), rest)" if "list_all isWhiteSpace stepback" for acc stepback rest
      by (rule parseElements_last [OF p1 [rule_format, OF endsValue_simps(3)]])
        (simp add: skipWs_close [OF that] ws_chars)
    with pe True show ?thesis by simp
  next
    case False
    with ne obtain c2 t2 where j: "joinLines indent partial = c2 # t2" and v2: "valueStart c2"
      and p2: "\<forall>acc stepback rest. list_all isWhiteSpace stepback \<longrightarrow>
                 parseElements acc (c2 # t2 @ lineFeed # stepback @ ch CHR '']'' # rest)
                   = Some (Arr (acc @ xs), rest)"
      by (elim impE exE conjE) (assumption, rule that)
    from False emp obtain q qs where pq: "partial = q # qs" by (cases partial) auto
    have J: "joinLines indent ((c1 # t1) # partial)
        = c1 # (t1 @ ch CHR '','' # lineFeed # indent @ c2 # t2)"
      using j by (simp add: pq)
    have wsi: "list_all isWhiteSpace (lineFeed # indent)"
      using ws by (simp add: ws_chars)
    have "parseElements acc (c1 # (t1 @ ch CHR '','' # lineFeed # indent @ c2 # t2)
              @ lineFeed # stepback @ ch CHR '']'' # rest)
        = Some (Arr (acc @ x # xs), rest)" if sb: "list_all isWhiteSpace stepback" for acc stepback rest
    proof -
      let ?R = "c2 # t2 @ lineFeed # stepback @ ch CHR '']'' # rest"
      have a: "parseValue (c1 # t1 @ ch CHR '','' # (lineFeed # indent) @ ?R)
          = Some (x, ch CHR '','' # (lineFeed # indent) @ ?R)"
        using p1 endsValue_simps(2) by blast
      have b: "parseElements (acc @ [x]) ((lineFeed # indent) @ ?R) = Some (Arr ((acc @ [x]) @ xs), rest)"
        using parseElements_ws [OF wsi, of "acc @ [x]" ?R] p2 [rule_format, OF sb, of "acc @ [x]" rest]
        by simp
      have "parseElements acc (c1 # t1 @ ch CHR '','' # (lineFeed # indent) @ ?R)
          = parseElements (acc @ [x]) ((lineFeed # indent) @ ?R)"
        by (rule parseElements_more [OF a])
      with b show ?thesis by simp
    qed
    with J show ?thesis by simp
  qed
  with S v1 show "\<exists>partial. serializeElements indent (x # xs) = Inr partial
           \<and> (partial = []) = (x # xs = [])
           \<and> (x # xs \<noteq> [] \<longrightarrow>
                (\<exists>c t. joinLines indent partial = c # t \<and> valueStart c
                   \<and> (\<forall>acc stepback rest. list_all isWhiteSpace stepback \<longrightarrow>
                          parseElements acc (c # t @ lineFeed # stepback @ ch CHR '']'' # rest)
                            = Some (Arr (acc @ x # xs), rest))))"
    by auto
qed

lemma update_new: "k \<notin> fst ` set al \<Longrightarrow> AList.update k v al = al @ [(k, v)]"
  by (induction al) auto

lemma parseMembers_key:
  "parseMembers acc (quotationMark # quoteUnits k @ quotationMark # ch CHR '':'' # ch CHR '' '' # s) =
     (case parseValue s of
        None \<Rightarrow> None
      | Some (v, rest') \<Rightarrow>
          (case skipWs rest' of
             [] \<Rightarrow> None
           | e # es \<Rightarrow>
               if e = ch CHR '','' then parseMembers (AList.update k v acc) es
               else if e = ch CHR ''}'' then Some (Obj (AList.update k v acc), es)
               else None))"
proof -
  have "parseValue (ch CHR '' '' # s) = parseValue s"
    using parseValue_ws [of "[ch CHR '' '']" s] by (simp add: ws_chars)
  then show ?thesis
    by (subst parseMembers_unfold)
      (simp add: skipWs_Cons_not_ws ws_chars scanString_quoteUnits)
qed

lemma parseMembers_more:
  "parseValue s = Some (v, ch CHR '','' # r) \<Longrightarrow>
     parseMembers acc (quotationMark # quoteUnits k @ quotationMark # ch CHR '':'' # ch CHR '' '' # s)
       = parseMembers (AList.update k v acc) r"
  by (simp add: parseMembers_key skipWs_Cons_not_ws ws_chars)

lemma parseMembers_last:
  "parseValue s = Some (v, r) \<Longrightarrow> skipWs r = ch CHR ''}'' # rest \<Longrightarrow>
     parseMembers acc (quotationMark # quoteUnits k @ quotationMark # ch CHR '':'' # ch CHR '' '' # s)
       = Some (Obj (AList.update k v acc), rest)"
  by (simp add: parseMembers_key punct_distinct)

lemma membersReadBack_Cons:
  assumes v: "readsBack v" and ps: "membersReadBack ps"
  shows "membersReadBack ((k, v) # ps)"
  unfolding membersReadBack_def
proof (intro allI impI)
  fix indent :: jsstring
  assume ws: "list_all isWhiteSpace indent"
  from readsBackD [OF v ws] obtain c1 t1 where
    s1: "serializeJSONProperty indent v = Inr (Some (c1 # t1))" and v1: "valueStart c1"
    and p1: "\<forall>rest. endsValue rest \<longrightarrow> parseValue (c1 # t1 @ rest) = Some (v, rest)"
    by (elim exE conjE) (rule that)
  from membersReadBackD [OF ps ws] obtain partial where
    ser: "serializeMembers indent ps = Inr partial" and emp: "(partial = []) = (ps = [])"
    and ne: "ps \<noteq> [] \<longrightarrow>
       (\<exists>t. joinLines indent partial = quotationMark # t
          \<and> (\<forall>acc stepback rest.
                 list_all isWhiteSpace stepback \<and> distinct (map fst (acc @ ps)) \<longrightarrow>
                 parseMembers acc (quotationMark # t @ lineFeed # stepback @ ch CHR ''}'' # rest)
                   = Some (Obj (acc @ ps), rest)))"
    by (elim exE conjE) (rule that)
  let ?m = "quoteUnits k @ quotationMark # ch CHR '':'' # ch CHR '' '' # c1 # t1"
  have S: "serializeMembers indent ((k, v) # ps) = Inr ((quotationMark # ?m) # partial)"
    using s1 ser by (simp add: quoteJSONString_def)
  have "\<exists>t. joinLines indent ((quotationMark # ?m) # partial) = quotationMark # t
          \<and> (\<forall>acc stepback rest.
                 list_all isWhiteSpace stepback \<and> distinct (map fst (acc @ (k, v) # ps)) \<longrightarrow>
                 parseMembers acc (quotationMark # t @ lineFeed # stepback @ ch CHR ''}'' # rest)
                   = Some (Obj (acc @ (k, v) # ps), rest))"
  proof (cases "ps = []")
    case True
    with emp have pe: "partial = []" by simp
    have "parseMembers acc (quotationMark # ?m @ lineFeed # stepback @ ch CHR ''}'' # rest)
        = Some (Obj (acc @ [(k, v)]), rest)"
      if sb: "list_all isWhiteSpace stepback" and d: "distinct (map fst (acc @ [(k, v)]))"
      for acc stepback rest
    proof -
      from d have "k \<notin> fst ` set acc" by auto
      then have u: "AList.update k v acc = acc @ [(k, v)]" by (rule update_new)
      have "parseMembers acc (quotationMark # quoteUnits k @ quotationMark # ch CHR '':'' # ch CHR '' ''
              # (c1 # t1 @ lineFeed # stepback @ ch CHR ''}'' # rest))
          = Some (Obj (AList.update k v acc), rest)"
        by (rule parseMembers_last [OF p1 [rule_format, OF endsValue_simps(3)]])
          (simp add: skipWs_close [OF sb] ws_chars)
      with u show ?thesis by simp
    qed
    with pe True show ?thesis by simp
  next
    case False
    with ne obtain t2 where j: "joinLines indent partial = quotationMark # t2"
      and p2: "\<forall>acc stepback rest.
                 list_all isWhiteSpace stepback \<and> distinct (map fst (acc @ ps)) \<longrightarrow>
                 parseMembers acc (quotationMark # t2 @ lineFeed # stepback @ ch CHR ''}'' # rest)
                   = Some (Obj (acc @ ps), rest)"
      by (elim impE exE conjE) (assumption, rule that)
    from False emp obtain q qs where pq: "partial = q # qs" by (cases partial) auto
    have J: "joinLines indent ((quotationMark # ?m) # partial)
        = quotationMark # (?m @ ch CHR '','' # lineFeed # indent @ quotationMark # t2)"
      using j by (simp add: pq)
    have wsi: "list_all isWhiteSpace (lineFeed # indent)"
      using ws by (simp add: ws_chars)
    have "parseMembers acc (quotationMark # (?m @ ch CHR '','' # lineFeed # indent @ quotationMark # t2)
              @ lineFeed # stepback @ ch CHR ''}'' # rest)
        = Some (Obj (acc @ (k, v) # ps), rest)"
      if sb: "list_all isWhiteSpace stepback" and d: "distinct (map fst (acc @ (k, v) # ps))"
      for acc stepback rest
    proof -
      let ?R = "quotationMark # t2 @ lineFeed # stepback @ ch CHR ''}'' # rest"
      from d have "k \<notin> fst ` set acc" by auto
      then have u: "AList.update k v acc = acc @ [(k, v)]" by (rule update_new)
      from d have d': "distinct (map fst ((acc @ [(k, v)]) @ ps))" by simp
      have a: "parseValue (c1 # t1 @ ch CHR '','' # (lineFeed # indent) @ ?R)
          = Some (v, ch CHR '','' # (lineFeed # indent) @ ?R)"
        using p1 endsValue_simps(2) by blast
      have b: "parseMembers (acc @ [(k, v)]) ((lineFeed # indent) @ ?R)
          = Some (Obj ((acc @ [(k, v)]) @ ps), rest)"
        using parseMembers_ws [OF wsi, of "acc @ [(k, v)]" ?R]
          p2 [rule_format, of stepback "acc @ [(k, v)]" rest] sb d'
        by simp
      have "parseMembers acc (quotationMark # quoteUnits k @ quotationMark # ch CHR '':'' # ch CHR '' ''
              # (c1 # t1 @ ch CHR '','' # (lineFeed # indent) @ ?R))
          = parseMembers (AList.update k v acc) ((lineFeed # indent) @ ?R)"
        by (rule parseMembers_more [OF a])
      with b u show ?thesis by simp
    qed
    with J show ?thesis by simp
  qed
  with S show "\<exists>partial. serializeMembers indent ((k, v) # ps) = Inr partial
           \<and> (partial = []) = ((k, v) # ps = [])
           \<and> ((k, v) # ps \<noteq> [] \<longrightarrow>
                (\<exists>t. joinLines indent partial = quotationMark # t
                   \<and> (\<forall>acc stepback rest.
                          list_all isWhiteSpace stepback \<and> distinct (map fst (acc @ (k, v) # ps)) \<longrightarrow>
                          parseMembers acc (quotationMark # t @ lineFeed # stepback @ ch CHR ''}'' # rest)
                            = Some (Obj (acc @ (k, v) # ps), rest))))"
    by auto
qed

lemma jsonData_readsBack:
  "jsonData v \<longrightarrow> readsBack v"
  "jsonElements xs \<longrightarrow> elementsReadBack xs"
  "jsonMembers ps \<longrightarrow> membersReadBack ps"
proof (induction v and xs and ps rule: jsonData_jsonElements_jsonMembers.induct)
  case 1
  show ?case by simp
qed (simp_all add: readsBack_Null readsBack_Bool readsBack_Num readsBack_Str readsBack_Arr readsBack_Obj
    elementsReadBack_Nil elementsReadBack_Cons membersReadBack_Nil membersReadBack_Cons)

lemma JSON_round_trip:
  assumes "jsonData v"
  shows "\<exists>json. JSON_stringify v = Inr (Some json) \<and> JSON_parse json = Inr v"
proof -
  from assms have "readsBack v" using jsonData_readsBack(1) by blast
  have "list_all isWhiteSpace []" by simp
  from readsBackD [OF \<open>readsBack v\<close> this] obtain c t where
    s: "serializeJSONProperty [] v = Inr (Some (c # t))"
    and p: "\<forall>rest. endsValue rest \<longrightarrow> parseValue (c # t @ rest) = Some (v, rest)"
    by (elim exE conjE) (rule that)
  from p [rule_format, OF endsValue_simps(1)] have "JSON_parse (c # t) = Inr v"
    by (simp add: JSON_parse_def skipWs_def)
  with s show ?thesis by (simp add: JSON_stringify_def)
qed

lemma fold_update_distinct:
  "distinct (map fst (acc @ entries)) \<Longrightarrow>
     fold (\<lambda>(k, v) acc. AList.update k v acc) entries acc = acc @ entries"
proof (induction entries arbitrary: acc)
  case Nil
  show ?case by simp
next
  case (Cons e entries)
  obtain k v where e: "e = (k, v)" by (cases e)
  from Cons.prems e have "k \<notin> fst ` set acc" by auto
  then have u: "AList.update k v acc = acc @ [(k, v)]" by (rule update_new)
  from Cons.prems e have "distinct (map fst ((acc @ [(k, v)]) @ entries))" by simp
  from Cons.IH [OF this] u e show ?case by simp
qed

lemma fromEntries_distinct: "distinct (map fst entries) \<Longrightarrow> fromEntries entries = entries"
  using fold_update_distinct [of "[]" entries] by (simp add: fromEntries_def)

lemma export_keys_distinct:
  "distinct [js ''variableTypes'', js ''blockTypes'', js ''typeErrors'']"
  by (simp add: js_def)

lemma export_keys_neq:
  "js ''variableTypes'' \<noteq> js ''blockTypes''" "js ''blockTypes'' \<noteq> js ''variableTypes''"
  "js ''variableTypes'' \<noteq> js ''typeErrors''" "js ''typeErrors'' \<noteq> js ''variableTypes''"
  "js ''blockTypes'' \<noteq> js ''typeErrors''" "js ''typeErrors'' \<noteq> js ''blockTypes''"
  by (simp_all add: js_def)

text \<open>
  C7, amended: for every registry whose maps have distinct keys and whose three stores hold
  only values that JSON text represents (\<^const>\<open>jsonRegistry\<close>: \<^verbatim>\<open>null\<close>, booleans, finite
  numbers other than negative zero, strings, arrays, and objects with distinct keys), the
  export returns its text, the import of that text returns, and afterwards every key of
  the variable map and of the block-metadata map has the value it had before, and the
  variable-type summary is the same.
\<close>

theorem round_trip_json_registry:
  assumes "jsonRegistry st"
  shows "\<exists>st'. roundTrip st = Inr st'
           \<and> map_of (variableTypes st') = map_of (variableTypes st)
           \<and> map_of (blockTypes st') = map_of (blockTypes st)
           \<and> getVariableTypeSummary st' = getVariableTypeSummary st"
proof -
  from assms have dv: "distinct (map fst (variableTypes st))" and jv: "jsonMembers (variableTypes st)"
    and db: "distinct (map fst (blockTypes st))" and jb: "jsonMembers (blockTypes st)"
    and jt: "jsonData (typeErrors st)"
    by (simp_all add: jsonRegistry_def)
  let ?doc = "Obj [(js ''variableTypes'', Obj (variableTypes st)),
                   (js ''blockTypes'', Obj (blockTypes st)),
                   (js ''typeErrors'', typeErrors st)]"
  have doc: "jsonData ?doc"
    using dv jv db jb jt export_keys_distinct by simp
  from JSON_round_trip [OF doc] obtain json where
    s: "JSON_stringify ?doc = Inr (Some json)" and p: "JSON_parse json = Inr ?doc"
    by blast
  have e: "exportTypeInfo st = Inr (Some json)"
    using s dv db by (simp add: exportTypeInfo_def fromEntries_distinct)
  have g: "getProp ?doc (js ''variableTypes'') = Obj (variableTypes st)"
    "getProp ?doc (js ''blockTypes'') = Obj (blockTypes st)"
    by (simp_all add: export_keys_neq)
  let ?st' = "importTypeInfo st json"
  have v: "variableTypes ?st' = variableTypes st" and b: "blockTypes ?st' = blockTypes st"
    using p dv db
    by (simp_all add: importTypeInfo_def readProp_def orElse_def newMap_def Let_def
        fromEntries_distinct export_keys_neq)
  have "roundTrip st = Inr ?st'"
    using e by (simp add: roundTrip_def)
  with v b show ?thesis
    by (simp add: getVariableTypeSummary_def)
qed

lemma JSON_parse_empty_object: "JSON_parse (js ''{}'') = Inr (Obj [])"
  by code_simp

text \<open>
  C8: when the document parses to an object, each of the three stores whose field the
  object does not have is empty after the import; after importing \<open>{}\<close> the registry is
  in the state of a newly constructed one, with all three stores empty.
\<close>

theorem import_defaults_missing_fields:
  "(\<forall>ps. JSON_parse doc = Inr (Obj ps) \<longrightarrow>
      (map_of ps (js ''variableTypes'') = None \<longrightarrow> variableTypes (importTypeInfo st doc) = [])
    \<and> (map_of ps (js ''blockTypes'') = None \<longrightarrow> blockTypes (importTypeInfo st doc) = [])
    \<and> (map_of ps (js ''typeErrors'') = None \<longrightarrow> typeErrors (importTypeInfo st doc) = Arr []))
   \<and> importTypeInfo st (js ''{}'') = TypeManager"
proof (intro conjI allI impI)
  fix ps
  assume p: "JSON_parse doc = Inr (Obj ps)"
  {
    assume "map_of ps (js ''variableTypes'') = None"
    with p show "variableTypes (importTypeInfo st doc) = []"
      by (simp add: importTypeInfo_def readProp_def orElse_def newMap_def Let_def fromEntries_def)
  }
  {
    assume "map_of ps (js ''blockTypes'') = None"
    with p show "blockTypes (importTypeInfo st doc) = []"
      by (simp add: importTypeInfo_def readProp_def orElse_def newMap_def Let_def fromEntries_def)
  }
  {
    assume "map_of ps (js ''typeErrors'') = None"
    with p show "typeErrors (importTypeInfo st doc) = Arr []"
      by (simp add: importTypeInfo_def readProp_def orElse_def newMap_def Let_def fromEntries_def)
  }
next
  show "importTypeInfo st (js ''{}'') = TypeManager"
    by (simp add: importTypeInfo_def JSON_parse_empty_object readProp_def orElse_def newMap_def
        Let_def fromEntries_def TypeManager_def)
qed

text \<open>
  C10: when \<^verbatim>\<open>JSON.parse\<close> throws on the argument, \<open>importTypeInfo\<close> returns and
  the registry (variable map, block-metadata map and diagnostics) is as it was.
\<close>

theorem import_unparseable_unchanged: "JSON_parse jsonString = Inl e \<Longrightarrow> importTypeInfo st jsonString = st"
  by (simp add: importTypeInfo_def)

text \<open>
  No import stops between two of its assignments: it changes nothing, or it assigns all
  three stores from the parsed document.
\<close>

lemma import_all_or_nothing:
  "importTypeInfo st jsonString = st
   \<or> (\<exists>data. JSON_parse jsonString = Inr data
         \<and> importTypeInfo st jsonString =
             \<lparr>variableTypes = newMap (orElse (getProp data (js ''variableTypes'')) (Obj [])),
              blockTypes = newMap (orElse (getProp data (js ''blockTypes'')) (Obj [])),
              typeErrors = orElse (getProp data (js ''typeErrors'')) (Arr [])\<rparr>)"
  by (cases "JSON_parse jsonString")
    (auto simp: importTypeInfo_def readProp_def Let_def)

theorem round_trip_json_registry_witness:
  "jsonRegistry sampleRegistry
   \<and> (\<exists>st'. roundTrip sampleRegistry = Inr st'
          \<and> map_of (variableTypes st') = map_of (variableTypes sampleRegistry)
          \<and> map_of (blockTypes st') = map_of (blockTypes sampleRegistry)
          \<and> getVariableTypeSummary st' = getVariableTypeSummary sampleRegistry)"
proof -
  have h: "jsonRegistry sampleRegistry"
    by code_simp
  from round_trip_json_registry [OF h] h show ?thesis by simp
qed

text \<open>
  C7 as stated fails: a property whose value is \<^verbatim>\<open>undefined\<close> is left out of the text,
  so the block information \<open>{inferred: undefined}\<close> comes back as \<open>{}\<close>.
\<close>

theorem round_trip_loses_undefined:
  "roundTrip (registerBlockType TypeManager (js ''b1'') (Obj [(js ''inferred'', Undefined)]))
     = Inr (registerBlockType TypeManager (js ''b1'') (Obj []))
   \<and> getBlockType (registerBlockType TypeManager (js ''b1'') (Obj [])) (js ''b1'')
     \<noteq> getBlockType (registerBlockType TypeManager (js ''b1'') (Obj [(js ''inferred'', Undefined)]))
         (js ''b1'')"
  by code_simp

text \<open>
  The numbers among these values are the finite ones, each as the literal that is
  written for it. An infinite number comes back as \<^verbatim>\<open>null\<close> and negative zero as zero.
\<close>

lemma jsonNumber_examples:
  "jsonNumber (js ''42'')" "jsonNumber (js ''0.5'')" "jsonNumber (js ''-1e-7'')"
  "\<not> jsonNumber (js ''1.0'')" "\<not> jsonNumber (js ''-0'')" "\<not> jsonNumber (js ''1e999'')"
  by code_simp+

lemma round_trip_infinite_and_negative_zero:
  "roundTrip (registerBlockType TypeManager (js ''b1'') (Num (js ''1e999'')))
     = Inr (registerBlockType TypeManager (js ''b1'') Null)"
  "roundTrip (registerBlockType TypeManager (js ''b1'') (Num (js ''-0'')))
     = Inr (registerBlockType TypeManager (js ''b1'') (Num (js ''0'')))"
  by code_simp+

theorem import_defaults_missing_fields_witness:
  "JSON_parse (js ''{}'') = Inr (Obj [])
   \<and> variableTypes (importTypeInfo sampleRegistry (js ''{}'')) = []
   \<and> blockTypes (importTypeInfo sampleRegistry (js ''{}'')) = []
   \<and> typeErrors (importTypeInfo sampleRegistry (js ''{}'')) = Arr []"
proof -
  have p: "JSON_parse (js ''{}'') = Inr (Obj [])"
    by (rule JSON_parse_empty_object)
  from import_defaults_missing_fields [of "js ''{}''" sampleRegistry]
  have "\<forall>ps. JSON_parse (js ''{}'') = Inr (Obj ps) \<longrightarrow>
      (map_of ps (js ''variableTypes'') = None \<longrightarrow>
         variableTypes (importTypeInfo sampleRegistry (js ''{}'')) = [])
    \<and> (map_of ps (js ''blockTypes'') = None \<longrightarrow>
         blockTypes (importTypeInfo sampleRegistry (js ''{}'')) = [])
    \<and> (map_of ps (js ''typeErrors'') = None \<longrightarrow>
         typeErrors (importTypeInfo sampleRegistry (js ''{}'')) = Arr [])"
    by (rule conjunct1)
  from this [rule_format, OF p] p show ?thesis by simp
qed

theorem import_unparseable_unchanged_witness:
  "JSON_parse (js ''not json'') = Inl SyntaxError
   \<and> importTypeInfo sampleRegistry (js ''not json'') = sampleRegistry"
proof -
  have h: "JSON_parse (js ''not json'') = Inl SyntaxError"
    by code_simp
  from import_unparseable_unchanged [OF h] h show ?thesis by simp
qed

text \<open>
  C9 fails on the code: after a scan that reported a duplicate declaration, the
  diagnostics hold the block, \<^verbatim>\<open>JSON.stringify\<close> meets the block again below its
  \<open>fieldVar_\<close>, and \<open>exportTypeInfo\<close> ends with the \<^verbatim>\<open>TypeError\<close> instead of a text.
\<close>

theorem export_raises_on_block_diagnostic:
  "(case checkTypeErrors TypeManager
           [localDeclaration (js ''counter'') (js ''number''),
            globalDeclaration (js ''counter'') (js ''string'')] of
      Inl e \<Rightarrow> Inr None
    | Inr st \<Rightarrow> exportTypeInfo st) = Inl TypeError"
  by code_simp

end
